theory Spec2Isabelle
  imports Main
begin

section \<open>JavaScript values seen by the widget\<close>

text \<open>
  The widget class of the template (\<^verbatim>\<open>src/unnamed/part_000\<close>, lines 1 to 121) is
  JavaScript. Its slider and dropdown values arrive as JSON: numbers and strings; reading
  an array past its end gives \<^verbatim>\<open>undefined\<close>. A finite number is kept exactly, as
  \<open>Fin m e\<close> for the value \<open>m / 10 ^ e\<close> (every finite double is such a decimal); the
  numbers meant are those of magnitude below \<open>10 ^ 21\<close>, where \<^verbatim>\<open>toFixed\<close> prints
  fixed-point digits. Strings are byte strings of ASCII text.
\<close>

datatype jsnum = Fin int nat | NaN | PosInf | NegInf

datatype jsval = JNum jsnum | JStr string | JUndefined | JNull | JBool bool

text \<open>
  A frame index as the widget holds it in \<^verbatim>\<open>current\<close>: a number of \<^verbatim>\<open>keyMap\<close>, or
  \<^verbatim>\<open>undefined\<close> when the lookup found nothing. Used as a property name it is the
  decimal string of the number, or the string \<^verbatim>\<open>"undefined"\<close>.
\<close>

datatype jsidx = Idx nat | Undefined

datatype js_error = TypeError

subsection \<open>Number(s) for a string s: is the result a number?\<close>

definition is_ws :: "char \<Rightarrow> bool" where
  "is_ws c = (c \<in> set [CHR '' '', CHR 0x09, CHR 0x0A, CHR 0x0B, CHR 0x0C, CHR 0x0D])"

definition is_digit :: "char \<Rightarrow> bool" where
  "is_digit c = (c \<in> set ''0123456789'')"

definition trim :: "string \<Rightarrow> string" where
  "trim s = rev (dropWhile is_ws (rev (dropWhile is_ws s)))"

definition exponent_part :: "string \<Rightarrow> bool" where
  "exponent_part r =
     (case r of
        [] \<Rightarrow> True
      | c # r' \<Rightarrow>
          (c = CHR ''e'' \<or> c = CHR ''E'') \<and>
          (let ds = (case r' of
                       [] \<Rightarrow> []
                     | s # t \<Rightarrow> if s = CHR ''+'' \<or> s = CHR ''-'' then t else r')
           in ds \<noteq> [] \<and> list_all is_digit ds))"

definition unsigned_decimal :: "string \<Rightarrow> bool" where
  "unsigned_decimal t =
     (t = ''Infinity'' \<or>
      (let ip = takeWhile is_digit t; r1 = dropWhile is_digit t
       in if r1 \<noteq> [] \<and> hd r1 = CHR ''.''
          then (ip \<noteq> [] \<or> takeWhile is_digit (tl r1) \<noteq> []) \<and>
               exponent_part (dropWhile is_digit (tl r1))
          else ip \<noteq> [] \<and> exponent_part r1))"

definition str_decimal :: "string \<Rightarrow> bool" where
  "str_decimal t =
     (case t of
        [] \<Rightarrow> False
      | c # r \<Rightarrow> if c = CHR ''+'' \<or> c = CHR ''-'' then unsigned_decimal r
                 else unsigned_decimal t)"

definition radix_literal :: "string \<Rightarrow> bool" where
  "radix_literal t =
     (case t of
        c0 # c1 # ds \<Rightarrow>
          c0 = CHR ''0'' \<and> ds \<noteq> [] \<and>
          (if c1 = CHR ''x'' \<or> c1 = CHR ''X''
           then list_all (\<lambda>c. c \<in> set ''0123456789abcdefABCDEF'') ds
           else if c1 = CHR ''o'' \<or> c1 = CHR ''O''
           then list_all (\<lambda>c. c \<in> set ''01234567'') ds
           else if c1 = CHR ''b'' \<or> c1 = CHR ''B''
           then list_all (\<lambda>c. c \<in> set ''01'') ds
           else False)
      | _ \<Rightarrow> False)"

text \<open>
  \<open>string_is_number s\<close>: \<^verbatim>\<open>Number(s)\<close> is not NaN. The string, trimmed of white space,
  is empty (the number 0), a hexadecimal, octal or binary literal, or a signed decimal
  literal (ECMAScript, StringNumericLiteral). White space is the six ASCII blanks of
  \<open>is_ws\<close>; the blanks beyond ASCII that \<^verbatim>\<open>Number\<close> strips as well are not characters of
  the strings modelled here.
\<close>

definition string_is_number :: "string \<Rightarrow> bool" where
  "string_is_number s = (let t = trim s in t = [] \<or> radix_literal t \<or> str_decimal t)"

text \<open>The global \<^verbatim>\<open>isNaN(val)\<close>: it converts its argument to a number first.\<close>

fun isNaN :: "jsval \<Rightarrow> bool" where
  "isNaN (JNum x) = (x = NaN)"
| "isNaN (JStr s) = (\<not> string_is_number s)"
| "isNaN JUndefined = True"
| "isNaN JNull = False"
| "isNaN (JBool b) = False"

subsection \<open>Printing numbers\<close>

definition digit_char :: "nat \<Rightarrow> char" where
  "digit_char d = ''0123456789'' ! d"

fun show_nat :: "nat \<Rightarrow> string" where
  "show_nat n = (if n < 10 then [digit_char n] else show_nat (n div 10) @ [digit_char (n mod 10)])"

declare show_nat.simps [simp del]

fun show_idx :: "jsidx \<Rightarrow> string" where
  "show_idx (Idx n) = show_nat n"
| "show_idx Undefined = ''undefined''"

text \<open>\<^verbatim>\<open>val % 1 === 0\<close> for a number \<^verbatim>\<open>val\<close>.\<close>

fun is_whole :: "jsnum \<Rightarrow> bool" where
  "is_whole (Fin m e) = (m mod 10 ^ e = 0)"
| "is_whole NaN = False"
| "is_whole PosInf = False"
| "is_whole NegInf = False"

text \<open>
  \<^verbatim>\<open>x.toFixed(f)\<close> (ECMAScript, Number.prototype.toFixed): the sign, then the integer
  \<open>n\<close> nearest to \<open>|x| * 10 ^ f\<close> (the larger one of two), printed with at least
  \<open>f + 1\<close> digits and a point before the last \<open>f\<close>. From the magnitude \<open>10 ^ 21\<close> on
  JavaScript prints the exponent form of the double instead, which this function does not
  give: such numbers are outside the model.
\<close>

fun toFixed :: "jsnum \<Rightarrow> nat \<Rightarrow> string" where
  "toFixed NaN f = ''NaN''"
| "toFixed PosInf f = ''Infinity''"
| "toFixed NegInf f = ''-Infinity''"
| "toFixed (Fin m e) f =
     (let n = (2 * nat \<bar>m\<bar> * 10 ^ f + 10 ^ e) div (2 * 10 ^ e);
          ds = show_nat n;
          padded = replicate (Suc f - length ds) (CHR ''0'') @ ds;
          k = length padded
      in (if m < 0 then ''-'' else '''') @ take (k - f) padded @
         (if f = 0 then '''' else ''.'' @ drop (k - f) padded))"

section \<open>The key of set_frame\<close>

text \<open>
  Lines 101 to 107, one slider value: a value that \<^verbatim>\<open>isNaN\<close> takes for a number is
  replaced by \<^verbatim>\<open>val.toFixed(fixed)\<close>, which only numbers have; on a string, a boolean or
  \<^verbatim>\<open>null\<close> the call raises a TypeError. Any other value is concatenated as it is.
\<close>

definition format_val :: "jsval \<Rightarrow> js_error + string" where
  "format_val val =
     (if \<not> isNaN val
      then (case val of
              JNum x \<Rightarrow> Inr (toFixed x (if is_whole x then 1 else 10))
            | _ \<Rightarrow> Inl TypeError)
      else Inr (case val of
                  JStr s \<Rightarrow> s
                | JNum x \<Rightarrow> ''NaN''
                | JUndefined \<Rightarrow> ''undefined''
                | JNull \<Rightarrow> ''null''
                | JBool b \<Rightarrow> (if b then ''true'' else ''false'')))"

text \<open>Reading and writing a JavaScript array: a read past the end gives \<^verbatim>\<open>undefined\<close>,
  a write past the end extends the array.\<close>

definition array_get :: "jsval list \<Rightarrow> nat \<Rightarrow> jsval" where
  "array_get xs i = (if i < length xs then xs ! i else JUndefined)"

definition array_set :: "jsval list \<Rightarrow> nat \<Rightarrow> jsval \<Rightarrow> jsval list" where
  "array_set xs i v =
     (if i < length xs then xs[i := v]
      else xs @ replicate (i - length xs) JUndefined @ [v])"

text \<open>The loop of lines 99 to 111, from index \<open>i\<close> with the key built so far.\<close>

function key_loop :: "string list \<Rightarrow> jsval list \<Rightarrow> nat \<Rightarrow> string \<Rightarrow> js_error + string" where
  "key_loop ids vals i key =
     (if i < length ids
      then (case format_val (array_get vals i) of
              Inl e \<Rightarrow> Inl e
            | Inr s \<Rightarrow>
                key_loop ids vals (Suc i)
                  (key @ [CHR 0x27] @ s @ [CHR 0x27] @
                   (if i \<noteq> length ids - 1 then '', ''
                    else if length ids = 1 then '','' else '''')))
      else Inr key)"
  by pat_completeness auto
termination
  by (relation "measure (\<lambda>(ids, vals, i, key). length ids - i)") auto

declare key_loop.simps [simp del]

definition build_key :: "string list \<Rightarrow> jsval list \<Rightarrow> js_error + string" where
  "build_key ids vals =
     (case key_loop ids vals 0 ''('' of Inl e \<Rightarrow> Inl e | Inr key \<Rightarrow> Inr (key @ '')''))"

section \<open>Objects, DOM fragments and the widget\<close>

text \<open>
  A JavaScript object whose property names are frame indices, as an association list:
  \<^verbatim>\<open>obj[k]\<close> is \<open>map_of obj k\<close>, \<^verbatim>\<open>k in obj\<close> is \<open>obj_has\<close>, an assignment
  \<^verbatim>\<open>obj[k] = v\<close> is \<open>obj_put\<close>, \<^verbatim>\<open>delete obj[k]\<close> is \<open>obj_delete\<close>.
  \<^verbatim>\<open>Object.keys(obj)\<close> lists the integer names in ascending order and then the other
  names, whatever the order of the assignments: \<open>obj_keys\<close>. The integer names meant are
  array indices (below \<open>2 ^ 32 - 1\<close>), as the numbers of frames are; JavaScript lists
  larger ones in the order of their creation.
\<close>

type_synonym 'v jsobj = "(jsidx \<times> 'v) list"

definition obj_has :: "'v jsobj \<Rightarrow> jsidx \<Rightarrow> bool" where
  "obj_has obj k = (k \<in> set (map fst obj))"

fun obj_put :: "'v jsobj \<Rightarrow> jsidx \<Rightarrow> 'v \<Rightarrow> 'v jsobj" where
  "obj_put [] k v = [(k, v)]"
| "obj_put (p # obj) k v = (if fst p = k then (k, v) # obj else p # obj_put obj k v)"

definition obj_delete :: "'v jsobj \<Rightarrow> jsidx \<Rightarrow> 'v jsobj" where
  "obj_delete obj k = filter (\<lambda>p. fst p \<noteq> k) obj"

fun idx_names :: "'v jsobj \<Rightarrow> nat list" where
  "idx_names [] = []"
| "idx_names ((Idx n, v) # obj) = n # idx_names obj"
| "idx_names ((Undefined, v) # obj) = idx_names obj"

definition obj_keys :: "'v jsobj \<Rightarrow> jsidx list" where
  "obj_keys obj =
     map Idx (sort (remdups (idx_names obj))) @
     (if obj_has obj Undefined then [Undefined] else [])"

text \<open>\<^verbatim>\<open>Object.keys(obj)[i]\<close>; past the end it is \<^verbatim>\<open>undefined\<close>.\<close>

definition key_at :: "jsidx list \<Rightarrow> nat \<Rightarrow> jsidx" where
  "key_at ks i = (if i < length ks then ks ! i else Undefined)"

text \<open>
  A cache entry: the \<^verbatim>\<open>div\<close> that line 79 appends under the image element. Its
  content is empty, the HTML that \<^verbatim>\<open>.html(...)\<close> has set, or the address that
  \<^verbatim>\<open>.load(...)\<close> has asked for.
\<close>

datatype content = Empty | Html string | Load string

record fragment =
  frag_id :: "string option"
  visible :: bool
  content :: content

text \<open>A command handed to \<^verbatim>\<open>kernel.execute\<close>, with the index its callback is bound to.\<close>

record request =
  code :: string
  target :: jsidx

text \<open>
  The fields of the widget object. \<open>embed\<close> is read at line 38 and assigned nowhere in
  the class; \<open>server\<close> is the template's parameter of line 34; \<open>requests\<close> lists the
  commands sent to the kernel so far. The field \<^verbatim>\<open>id\<close> is \<open>id_w\<close> here.
\<close>

record widget =
  frames :: "string jsobj"
  fig_id :: string
  img_id :: string
  id_w :: string
  slider_ids :: "string list"
  keyMap :: "(string \<times> nat) list"
  current_frame :: jsidx
  current_vals :: "jsval list"
  load_json :: bool
  mode :: string
  notFound :: string
  cached :: bool
  cache :: "fragment jsobj"
  embed :: bool
  server :: string
  requests :: "request list"

text \<open>How a method ends: it returns, or it raises; either way the object's fields are
  as the method left them.\<close>

datatype outcome = Returned widget | Threw js_error widget

fun state_of :: "outcome \<Rightarrow> widget" where
  "state_of (Returned w) = w"
| "state_of (Threw e w) = w"

fun and_then :: "outcome \<Rightarrow> (widget \<Rightarrow> outcome) \<Rightarrow> outcome" where
  "and_then (Returned w) f = f w"
| "and_then (Threw e w) f = Threw e w"

section \<open>The methods\<close>

text \<open>Lines 32 to 42. \<^verbatim>\<open>this.cache[idx]\<close> must be there: a method is called on it.
  \<^verbatim>\<open>.html(undefined)\<close> reads the content and sets nothing.\<close>

definition populate_cache :: "widget \<Rightarrow> jsidx \<Rightarrow> outcome" where
  "populate_cache w idx =
     (case map_of (cache w) idx of
        None \<Rightarrow> Threw TypeError w
      | Some d \<Rightarrow>
          if load_json w
          then Returned (w\<lparr>cache := obj_put (cache w) idx
                  (d\<lparr>content := Load (server w @ ''/'' @ fig_id w @ ''/'' @ show_idx idx)\<rparr>)\<rparr>)
          else (let w1 = (case map_of (frames w) idx of
                            None \<Rightarrow> w
                          | Some f \<Rightarrow> w\<lparr>cache := obj_put (cache w) idx (d\<lparr>content := Html f\<rparr>)\<rparr>)
                in Returned (if embed w1 then w1\<lparr>frames := obj_delete (frames w1) idx\<rparr> else w1)))"

text \<open>Lines 78 to 83, the body of the loop for the property name \<open>k\<close>.\<close>

definition cache_entry :: "widget \<Rightarrow> jsidx \<Rightarrow> outcome" where
  "cache_entry w k =
     (if \<not> obj_has (cache w) k
      then populate_cache
             (w\<lparr>cache := obj_put (cache w) k
                  \<lparr>frag_id = Some (img_id w @ ''_'' @ show_idx k), visible = False,
                   content = Empty\<rparr>\<rparr>) k
      else Returned w)"

text \<open>
  The loop of lines 74 to 84 from the counter \<open>i\<close>. Without \<open>load_json\<close> line 76
  overwrites the counter with the \<open>i\<close>-th property name of \<open>frames\<close>, and \<^verbatim>\<open>i++\<close> then
  counts on from that name: from a number \<open>n\<close> to \<open>n + 1\<close>, from \<^verbatim>\<open>undefined\<close> to NaN,
  which ends the loop.
\<close>

function update_cache_loop :: "nat \<Rightarrow> nat \<Rightarrow> widget \<Rightarrow> outcome" where
  "update_cache_loop frame_len i w =
     (if i < frame_len
      then (let k = (if load_json w then Idx i else key_at (obj_keys (frames w)) i)
            in case cache_entry w k of
                 Threw e w' \<Rightarrow> Threw e w'
               | Returned w' \<Rightarrow>
                   (case k of
                      Idx n \<Rightarrow> update_cache_loop frame_len (Suc n) w'
                    | Undefined \<Rightarrow> Returned w'))
      else Returned w)"
  by pat_completeness auto
termination
proof (relation "measure (\<lambda>(frame_len, i, w). frame_len - i)")
  show "wf (measure (\<lambda>(frame_len, i, w). frame_len - i))"
    by simp
next
  fix frame_len i :: nat and w w' :: widget and k :: jsidx and n :: nat
  assume lt: "i < frame_len"
    and k: "k = (if load_json w then Idx i else key_at (obj_keys (frames w)) i)"
    and n: "k = Idx n"
  have "i \<le> n"
  proof (cases "load_json w")
    case True
    with k n show ?thesis by simp
  next
    case False
    let ?ns = "sort (remdups (idx_names (frames w)))"
    from False k n have at: "key_at (obj_keys (frames w)) i = Idx n"
      by simp
    then have len: "i < length (obj_keys (frames w))"
      by (auto simp: key_at_def split: if_splits)
    with at have nth: "obj_keys (frames w) ! i = Idx n"
      by (simp add: key_at_def)
    have "i < length ?ns"
    proof (rule ccontr)
      assume "\<not> i < length ?ns"
      with len nth show False
        by (auto simp: obj_keys_def nth_append split: if_splits)
    qed
    with nth have "?ns ! i = n"
      by (simp add: obj_keys_def nth_append)
    moreover have "sorted_wrt (<) ?ns"
      by (simp add: strict_sorted_iff)
    ultimately show ?thesis
      using sorted_wrt_less_idx [of ?ns i] \<open>i < length ?ns\<close> by simp
  qed
  with lt show "((frame_len, Suc n, w'), (frame_len, i, w)) \<in> measure (\<lambda>(frame_len, i, w). frame_len - i)"
    by simp
qed

declare update_cache_loop.simps [simp del]

text \<open>\<^verbatim>\<open>frame_len\<close> of lines 69 to 73. \<^verbatim>\<open>_.size\<close> counts the properties of an object.\<close>

definition frame_count :: "widget \<Rightarrow> nat" where
  "frame_count w =
     (if load_json w then length (remdups (map fst (keyMap w)))
      else length (obj_keys (frames w)))"

text \<open>Lines 68 to 85.\<close>

definition update_cache :: "widget \<Rightarrow> outcome" where
  "update_cache w = update_cache_loop (frame_count w) 0 w"

text \<open>Lines 87 to 94: hide every entry, show the one of \<open>current\<close>.\<close>

definition update :: "widget \<Rightarrow> jsidx \<Rightarrow> widget" where
  "update w current =
     (if obj_has (cache w) current
      then (let hidden = map (\<lambda>p. (fst p, (snd p)\<lparr>visible := False\<rparr>)) (cache w)
            in case map_of hidden current of
                 None \<Rightarrow> w\<lparr>cache := hidden\<rparr>
               | Some d \<Rightarrow> w\<lparr>cache := obj_put hidden current (d\<lparr>visible := True\<rparr>)\<rparr>)
      else w)"

text \<open>Lines 56 to 63: the part of \<^verbatim>\<open>dynamic_update\<close> that runs at the call. The
  command is sent once; what the kernel answers is handled by \<open>callback\<close>.\<close>

definition dynamic_update :: "widget \<Rightarrow> jsidx \<Rightarrow> widget" where
  "dynamic_update w current =
     (if \<not> obj_has (cache w) current
      then w\<lparr>requests := requests w @
              [\<lparr>code = ''import holoviews;'' @
                        ''holoviews.plotting.widgets.NdWidget.widgets['' @ [CHR 0x27] @
                        id_w w @ [CHR 0x27] @ ''].update('' @ show_idx current @ '')'',
                target = current\<rparr>]\<rparr>
      else update w current)"

text \<open>
  Lines 48 to 55, the callback of a request for \<open>current\<close>, run when an output message
  arrives. \<open>msg\<close> is the message's \<^verbatim>\<open>text/plain\<close> data, \<open>None\<close> when it has none (the
  property read then raises). \<^verbatim>\<open>slice(1, -1)\<close> drops the first and the last character.
\<close>

definition callback :: "widget \<Rightarrow> jsidx \<Rightarrow> string option \<Rightarrow> outcome" where
  "callback w current msg =
     (case msg of
        None \<Rightarrow> Threw TypeError w
      | Some txt \<Rightarrow>
          and_then (update_cache (w\<lparr>frames := obj_put (frames w) current (butlast (tl txt))\<rparr>))
            (\<lambda>w'. Returned (update w' current)))"

text \<open>Lines 21 to 28.\<close>

definition init_slider :: "widget \<Rightarrow> jsval \<Rightarrow> outcome" where
  "init_slider w init_val =
     (if cached w
      then and_then (update_cache w) (\<lambda>w'. Returned (update w' (Idx 0)))
      else Returned (dynamic_update w (Idx 0)))"

text \<open>Lines 4 to 16 of the constructor: the object before \<^verbatim>\<open>init_slider\<close> runs.\<close>

definition fresh_widget ::
  "string \<Rightarrow> string jsobj \<Rightarrow> string \<Rightarrow> string list \<Rightarrow> (string \<times> nat) list \<Rightarrow> jsval list \<Rightarrow>
   string \<Rightarrow> bool \<Rightarrow> string \<Rightarrow> bool \<Rightarrow> widget" where
  "fresh_widget srv frames0 ident sliders key_map dim_vals not_found json md cachd =
     \<lparr>frames = frames0, fig_id = ''fig_'' @ ident, img_id = ''_anim_img'' @ ident,
      id_w = ident, slider_ids = sliders, keyMap = key_map, current_frame = Idx 0,
      current_vals = dim_vals, load_json = json, mode = md, notFound = not_found,
      cached = cachd, cache = [], embed = False, server = srv, requests = []\<rparr>"

text \<open>Lines 3 to 18, the constructor.\<close>

definition new_widget ::
  "string \<Rightarrow> string jsobj \<Rightarrow> string \<Rightarrow> string list \<Rightarrow> (string \<times> nat) list \<Rightarrow> jsval list \<Rightarrow>
   string \<Rightarrow> bool \<Rightarrow> string \<Rightarrow> bool \<Rightarrow> outcome" where
  "new_widget srv frames0 ident sliders key_map dim_vals not_found json md cachd =
     init_slider (fresh_widget srv frames0 ident sliders key_map dim_vals not_found json md cachd)
       (array_get dim_vals 0)"

text \<open>\<^verbatim>\<open>this.keyMap[key]\<close>.\<close>

definition lookup_key :: "(string \<times> nat) list \<Rightarrow> string \<Rightarrow> jsidx" where
  "lookup_key key_map key = (case map_of key_map key of None \<Rightarrow> Undefined | Some n \<Rightarrow> Idx n)"

text \<open>Lines 96 to 120.\<close>

definition set_frame :: "widget \<Rightarrow> jsval \<Rightarrow> nat \<Rightarrow> outcome" where
  "set_frame w dim_val dim_idx =
     (let w1 = w\<lparr>current_vals := array_set (current_vals w) dim_idx dim_val\<rparr>
      in case build_key (slider_ids w1) (current_vals w1) of
           Inl e \<Rightarrow> Threw e w1
         | Inr key \<Rightarrow>
             (let current = lookup_key (keyMap w1) key;
                  w2 = w1\<lparr>current_frame := current\<rparr>
              in Returned (if cached w2 then update w2 current else dynamic_update w2 current)))"

section \<open>What the display shows, and runs of the widget\<close>

text \<open>The entry that lines 79 to 82 create for the property name \<open>k\<close>, filled by
  \<open>populate_cache\<close>: hidden, with its identifier and the frame's content.\<close>

definition entry_for :: "widget \<Rightarrow> jsidx \<Rightarrow> fragment" where
  "entry_for w k =
     \<lparr>frag_id = Some (img_id w @ ''_'' @ show_idx k), visible = False,
      content = (if load_json w then Load (server w @ ''/'' @ fig_id w @ ''/'' @ show_idx k)
                 else (case map_of (frames w) k of None \<Rightarrow> Empty | Some f \<Rightarrow> Html f))\<rparr>"

text \<open>The property names of the cache entries that are visible.\<close>

definition shown :: "widget \<Rightarrow> jsidx list" where
  "shown w = map fst (filter (\<lambda>p. visible (snd p)) (cache w))"

text \<open>At most one cache entry is visible.\<close>

definition one_shown :: "widget \<Rightarrow> bool" where
  "one_shown w = (length (shown w) \<le> 1)"

text \<open>The property names of the cache.\<close>

definition cache_keys :: "widget \<Rightarrow> jsidx set" where
  "cache_keys w = set (map fst (cache w))"

text \<open>
  A call of one of the methods, or the arrival of a kernel's answer. A run performs calls
  one after the other on the same object; a call that raises leaves the object as it is
  at the raise, and the next event handler runs on that.
\<close>

datatype call =
    Init_slider jsval
  | Populate_cache jsidx
  | Dynamic_update jsidx
  | Callback jsidx "string option"
  | Update_cache
  | Update jsidx
  | Set_frame jsval nat

fun perform :: "call \<Rightarrow> widget \<Rightarrow> outcome" where
  "perform (Init_slider v) w = init_slider w v"
| "perform (Populate_cache k) w = populate_cache w k"
| "perform (Dynamic_update k) w = Returned (dynamic_update w k)"
| "perform (Callback k msg) w = callback w k msg"
| "perform Update_cache w = update_cache w"
| "perform (Update k) w = Returned (update w k)"
| "perform (Set_frame v i) w = set_frame w v i"

fun run :: "call list \<Rightarrow> widget \<Rightarrow> widget" where
  "run [] w = w"
| "run (c # cs) w = run cs (state_of (perform c w))"

section \<open>Example widgets\<close>

text \<open>The keys of a widget with one slider over the values 0 and 1, and that widget in
  cached mode with its two frames embedded.\<close>

definition demo_keys :: "(string \<times> nat) list" where
  "demo_keys = [(''('0.0',)'', 0), (''('1.0',)'', 1)]"

definition demo_cached :: widget where
  "demo_cached =
     state_of (new_widget ''srv'' [(Idx 0, ''<p>0</p>''), (Idx 1, ''<p>1</p>'')] ''7'' [''x'']
       demo_keys [JNum (Fin 0 0)] ''nf'' False ''m'' True)"

text \<open>The cached widget after \<^verbatim>\<open>frames\<close> got a third frame and another first one.\<close>

definition demo_more :: widget where
  "demo_more =
     demo_cached\<lparr>frames := [(Idx 0, ''<p>new</p>''), (Idx 1, ''<p>1</p>''), (Idx 2, ''<p>2</p>'')]\<rparr>"

text \<open>The same widget in live mode: nothing embedded, frames asked from the kernel.\<close>

definition demo_live :: widget where
  "demo_live =
     state_of (new_widget ''srv'' [] ''7'' [''x''] demo_keys [JNum (Fin 0 0)] ''nf'' False ''m'' False)"

text \<open>A cached widget with one dropdown over the years 2015 and 2016, given as strings.\<close>

definition demo_years :: widget where
  "demo_years =
     state_of (new_widget ''srv'' [(Idx 0, ''<p>2015</p>''), (Idx 1, ''<p>2016</p>'')] ''7''
       [''year''] [(''('2015',)'', 0), (''('2016',)'', 1)] [JStr ''2015''] ''nf'' False ''m'' True)"

text \<open>Two answers of the kernel: the frame's text between quotes.\<close>

definition answer_a :: string where
  "answer_a = [CHR 0x27] @ ''<p>A</p>'' @ [CHR 0x27]"

definition answer_b :: string where
  "answer_b = [CHR 0x27] @ ''<p>B</p>'' @ [CHR 0x27]"

text \<open>A cached widget without frames.\<close>

definition demo_empty :: widget where
  "demo_empty =
     state_of (new_widget ''srv'' [] ''7'' [''x''] demo_keys [JNum (Fin 0 0)] ''nf'' False ''m'' True)"

text \<open>The live widget after the answers for the frames 0 and 2, when frame 3 has been asked
  for.\<close>

definition demo_gap :: widget where
  "demo_gap =
     run [Callback (Idx 0) (Some answer_a), Dynamic_update (Idx 2),
          Callback (Idx 2) (Some answer_b), Dynamic_update (Idx 3)] demo_live"

section \<open>Numbered frames\<close>

text \<open>What the loop from the counter \<open>i\<close> up to \<open>n\<close> leaves under the name \<open>k\<close> when the
  frames are numbered from 0: the entry that was there, or a new one for a number in range.\<close>

definition filled :: "widget \<Rightarrow> nat \<Rightarrow> nat \<Rightarrow> jsidx \<Rightarrow> fragment option" where
  "filled w i n k =
     (case map_of (cache w) k of
        Some d \<Rightarrow> Some d
      | None \<Rightarrow>
          (case k of
             Idx j \<Rightarrow> if i \<le> j \<and> j < n then Some (entry_for w k) else None
           | Undefined \<Rightarrow> None))"


section \<open>Objects and the cache loop\<close>

lemma map_of_obj_put: "map_of (obj_put obj k v) k' = (if k' = k then Some v else map_of obj k')"
  by (induction obj) auto

lemma names_obj_put: "fst ` set (obj_put obj k v) = insert k (fst ` set obj)"
  by (induction obj) auto

lemma obj_has_map_of: "obj_has obj k = (map_of obj k \<noteq> None)"
  by (simp add: obj_has_def map_of_eq_None_iff)

lemma obj_has_put: "obj_has (obj_put obj k v) k' = (k' = k \<or> obj_has obj k')"
  by (simp add: obj_has_def names_obj_put)

lemma populate_cache_returns:
  "map_of (cache w) idx = Some d \<Longrightarrow> \<exists>w'. populate_cache w idx = Returned w'"
  by (simp add: populate_cache_def Let_def)

lemma cache_entry_returns: "\<exists>w'. cache_entry w k = Returned w'"
proof (cases "obj_has (cache w) k")
  case True
  then show ?thesis by (simp add: cache_entry_def)
next
  case False
  let ?w1 = "w\<lparr>cache := obj_put (cache w) k
                  \<lparr>frag_id = Some (img_id w @ ''_'' @ show_idx k), visible = False,
                   content = Empty\<rparr>\<rparr>"
  have "\<exists>d. map_of (cache ?w1) k = Some d"
    by (simp add: map_of_obj_put)
  then obtain w' where "populate_cache ?w1 k = Returned w'"
    using populate_cache_returns by blast
  with False show ?thesis by (simp add: cache_entry_def)
qed

lemma update_cache_loop_rel:
  assumes step: "\<And>u k. R u (state_of (cache_entry u k))"
    and refl: "\<And>u. R u u"
    and trans: "\<And>a b c. R a b \<Longrightarrow> R b c \<Longrightarrow> R a c"
  shows "R w (state_of (update_cache_loop frame_len i w))"
proof (induction frame_len i w rule: update_cache_loop.induct)
  case (1 frame_len i w)
  let ?k = "if load_json w then Idx i else key_at (obj_keys (frames w)) i"
  show ?case
  proof (cases "i < frame_len")
    case False
    then have "update_cache_loop frame_len i w = Returned w"
      by (simp add: update_cache_loop.simps [of frame_len i w])
    then show ?thesis by (simp add: refl)
  next
    case True
    obtain w' where w': "cache_entry w ?k = Returned w'"
      using cache_entry_returns by blast
    have s: "R w w'" using step [of w ?k] by (simp only: w' state_of.simps)
    show ?thesis
    proof (cases ?k)
      case (Idx n)
      have ih: "R w' (state_of (update_cache_loop frame_len (Suc n) w'))"
        by (rule "1.IH" [OF True HOL.refl w' Idx])
      have "update_cache_loop frame_len i w = update_cache_loop frame_len (Suc n) w'"
        using w' by (simp add: update_cache_loop.simps [of frame_len i w] True Idx Let_def)
      then show ?thesis using s ih trans by metis
    next
      case Undefined
      have "update_cache_loop frame_len i w = Returned w'"
        using w' by (simp add: update_cache_loop.simps [of frame_len i w] True Undefined Let_def)
      then show ?thesis using s by simp
    qed
  qed
qed

lemma update_cache_loop_returns: "\<exists>w'. update_cache_loop frame_len i w = Returned w'"
proof (induction frame_len i w rule: update_cache_loop.induct)
  case (1 frame_len i w)
  let ?k = "if load_json w then Idx i else key_at (obj_keys (frames w)) i"
  show ?case
  proof (cases "i < frame_len")
    case False
    then show ?thesis by (simp add: update_cache_loop.simps [of frame_len i w])
  next
    case True
    obtain w' where w': "cache_entry w ?k = Returned w'"
      using cache_entry_returns by blast
    show ?thesis
    proof (cases ?k)
      case (Idx n)
      have ih: "\<exists>w''. update_cache_loop frame_len (Suc n) w' = Returned w''"
        by (rule "1.IH" [OF True HOL.refl w' Idx])
      have "update_cache_loop frame_len i w = update_cache_loop frame_len (Suc n) w'"
        using w' by (simp add: update_cache_loop.simps [of frame_len i w] True Idx Let_def)
      then show ?thesis using ih by simp
    next
      case Undefined
      have "update_cache_loop frame_len i w = Returned w'"
        using w' by (simp add: update_cache_loop.simps [of frame_len i w] True Undefined Let_def)
      then show ?thesis by simp
    qed
  qed
qed

lemma update_cache_rel:
  assumes "\<And>u k. R u (state_of (cache_entry u k))" "\<And>u. R u u"
    "\<And>a b c. R a b \<Longrightarrow> R b c \<Longrightarrow> R a c"
  shows "R w (state_of (update_cache w))"
  unfolding update_cache_def by (rule update_cache_loop_rel [where R = R]) (fact assms)+

lemma update_cache_returns: "\<exists>w'. update_cache w = Returned w'"
  by (simp add: update_cache_def update_cache_loop_returns)

lemma obj_put_twice: "obj_put (obj_put obj k v) k v' = obj_put obj k v'"
  by (induction obj) auto

lemma obj_put_new: "\<not> obj_has obj k \<Longrightarrow> obj_put obj k v = obj @ [(k, v)]"
  by (induction obj) (auto simp: obj_has_def)

lemma cache_entry_old: "obj_has (cache w) k \<Longrightarrow> cache_entry w k = Returned w"
  by (simp add: cache_entry_def)

lemma cache_entry_new:
  assumes "\<not> obj_has (cache w) k"
  shows "cache_entry w k =
     Returned (w\<lparr>cache := cache w @ [(k, entry_for w k)],
                 frames := (if \<not> load_json w \<and> embed w then obj_delete (frames w) k
                            else frames w)\<rparr>)"
proof -
  let ?d0 = "\<lparr>frag_id = Some (img_id w @ ''_'' @ show_idx k), visible = False, content = Empty\<rparr>"
  let ?w1 = "w\<lparr>cache := obj_put (cache w) k ?d0\<rparr>"
  have m: "map_of (cache ?w1) k = Some ?d0"
    by (simp add: map_of_obj_put)
  have "populate_cache ?w1 k =
     Returned (w\<lparr>cache := obj_put (cache w) k (entry_for w k),
                 frames := (if \<not> load_json w \<and> embed w then obj_delete (frames w) k
                            else frames w)\<rparr>)"
    unfolding populate_cache_def m
    by (cases "map_of (frames w) k") (simp_all add: entry_for_def obj_put_twice Let_def)
  with assms show ?thesis
    by (simp add: cache_entry_def obj_put_new)
qed

lemma cache_entry_state:
  "state_of (cache_entry w k) =
     (if obj_has (cache w) k then w
      else w\<lparr>cache := cache w @ [(k, entry_for w k)],
              frames := (if \<not> load_json w \<and> embed w then obj_delete (frames w) k
                         else frames w)\<rparr>)"
  by (simp add: cache_entry_old cache_entry_new)

lemma update_cache_state: "update_cache w = Returned (state_of (update_cache w))"
  using update_cache_returns [of w] by auto

subsection \<open>What update_cache leaves alone\<close>

lemma update_cache_fields:
  "keyMap (state_of (update_cache w)) = keyMap w \<and>
   load_json (state_of (update_cache w)) = load_json w \<and>
   cached (state_of (update_cache w)) = cached w \<and>
   embed (state_of (update_cache w)) = embed w \<and>
   requests (state_of (update_cache w)) = requests w \<and>
   slider_ids (state_of (update_cache w)) = slider_ids w \<and>
   current_vals (state_of (update_cache w)) = current_vals w \<and>
   current_frame (state_of (update_cache w)) = current_frame w \<and>
   img_id (state_of (update_cache w)) = img_id w \<and>
   fig_id (state_of (update_cache w)) = fig_id w \<and>
   server (state_of (update_cache w)) = server w \<and>
   id_w (state_of (update_cache w)) = id_w w"
  by (rule update_cache_rel [where R = "\<lambda>u v. keyMap v = keyMap u \<and> load_json v = load_json u \<and>
        cached v = cached u \<and> embed v = embed u \<and> requests v = requests u \<and>
        slider_ids v = slider_ids u \<and> current_vals v = current_vals u \<and>
        current_frame v = current_frame u \<and> img_id v = img_id u \<and> fig_id v = fig_id u \<and>
        server v = server u \<and> id_w v = id_w u"])
     (simp_all add: cache_entry_state)

lemma update_cache_frames:
  assumes "\<not> embed w"
  shows "frames (state_of (update_cache w)) = frames w"
proof -
  have "embed (state_of (update_cache w)) = embed w \<and>
        (\<not> embed w \<longrightarrow> frames (state_of (update_cache w)) = frames w)"
    by (rule update_cache_rel [where R = "\<lambda>u v. embed v = embed u \<and> (\<not> embed u \<longrightarrow> frames v = frames u)"])
       (simp_all add: cache_entry_state)
  with assms show ?thesis by blast
qed

lemma cache_entry_keeps:
  assumes "map_of (cache u) k = Some d"
  shows "map_of (cache (state_of (cache_entry u k'))) k = Some d"
proof (cases "obj_has (cache u) k'")
  case True
  with assms show ?thesis by (simp add: cache_entry_state)
next
  case False
  have "map_of (cache u @ [(k', entry_for u k')]) k = Some d"
    using assms by (simp add: map_add_Some_iff)
  with False show ?thesis by (simp add: cache_entry_state)
qed

lemma update_cache_keeps:
  assumes "map_of (cache w) k = Some d"
  shows "map_of (cache (state_of (update_cache w))) k = Some d"
proof -
  have "\<forall>k d. map_of (cache w) k = Some d \<longrightarrow> map_of (cache (state_of (update_cache w))) k = Some d"
  proof (rule update_cache_rel [where R = "\<lambda>u v. \<forall>k d. map_of (cache u) k = Some d \<longrightarrow>
          map_of (cache v) k = Some d"])
    show "\<And>u k. \<forall>ka d. map_of (cache u) ka = Some d \<longrightarrow>
        map_of (cache (state_of (cache_entry u k))) ka = Some d"
      using cache_entry_keeps by blast
  qed blast+
  with assms show ?thesis by blast
qed

lemma update_cache_names:
  "fst ` set (cache w) \<subseteq> fst ` set (cache (state_of (update_cache w)))"
  by (rule update_cache_rel [where R = "\<lambda>u v. fst ` set (cache u) \<subseteq> fst ` set (cache v)"])
     (auto simp: cache_entry_state)

lemma update_cache_shown: "shown (state_of (update_cache w)) = shown w"
  by (rule update_cache_rel [where R = "\<lambda>u v. shown v = shown u"])
     (auto simp: cache_entry_state shown_def entry_for_def)

subsection \<open>update\<close>

lemma update_absent: "\<not> obj_has (cache w) current \<Longrightarrow> update w current = w"
  by (simp add: update_def)

lemma map_of_hide:
  "map_of (map (\<lambda>p. (fst p, f (snd p))) obj) k = map_option f (map_of obj k)"
  by (induction obj) auto

lemma update_present:
  assumes "obj_has (cache w) current"
  shows "\<exists>d. map_of (cache w) current = Some d \<and>
     update w current =
       w\<lparr>cache := obj_put (map (\<lambda>p. (fst p, (snd p)\<lparr>visible := False\<rparr>)) (cache w)) current
                    (d\<lparr>visible := True\<rparr>)\<rparr>"
proof -
  from assms obtain d where d: "map_of (cache w) current = Some d"
    by (auto simp: obj_has_map_of)
  then show ?thesis
    using assms by (simp add: update_def Let_def map_of_hide)
qed

lemma update_map_of:
  "obj_has (cache w) current \<Longrightarrow>
   map_of (cache (update w current)) k =
     map_option (\<lambda>d. d\<lparr>visible := (k = current)\<rparr>) (map_of (cache w) k)"
  using update_present [of w current]
  by (auto simp: map_of_obj_put map_of_hide)

lemma shown_put_hidden:
  "\<forall>p \<in> set obj. \<not> visible (snd p) \<Longrightarrow> k \<in> fst ` set obj \<Longrightarrow> visible d \<Longrightarrow>
   map fst (filter (\<lambda>p. visible (snd p)) (obj_put obj k d)) = [k]"
proof (induction obj)
  case Nil
  then show ?case by simp
next
  case (Cons p obj)
  show ?case
  proof (cases "fst p = k")
    case True
    have "filter (\<lambda>p. visible (snd p)) obj = []"
      using Cons.prems(1) by (auto simp: filter_empty_conv)
    with True Cons.prems(3) show ?thesis by simp
  next
    case False
    with Cons show ?thesis by auto
  qed
qed

lemma names_hide: "fst ` set (map (\<lambda>p. (fst p, f (snd p))) obj) = fst ` set obj"
  by (induction obj) auto

lemma update_shown:
  assumes "obj_has (cache w) current"
  shows "shown (update w current) = [current]"
proof -
  let ?hidden = "map (\<lambda>p. (fst p, (snd p)\<lparr>visible := False\<rparr>)) (cache w)"
  from update_present [OF assms] obtain d where
    u: "update w current = w\<lparr>cache := obj_put ?hidden current (d\<lparr>visible := True\<rparr>)\<rparr>"
    by blast
  have "map fst (filter (\<lambda>p. visible (snd p)) (obj_put ?hidden current (d\<lparr>visible := True\<rparr>))) = [current]"
  proof (rule shown_put_hidden)
    show "\<forall>p\<in>set ?hidden. \<not> visible (snd p)" by auto
    show "current \<in> fst ` set ?hidden"
      unfolding names_hide using assms by (simp add: obj_has_def)
    show "visible (d\<lparr>visible := True\<rparr>)" by simp
  qed
  then show ?thesis by (simp add: shown_def u)
qed

lemma update_names: "fst ` set (cache (update w current)) = fst ` set (cache w)"
proof (cases "obj_has (cache w) current")
  case True
  let ?hidden = "map (\<lambda>p. (fst p, (snd p)\<lparr>visible := False\<rparr>)) (cache w)"
  from update_present [OF True] obtain d where
    u: "update w current = w\<lparr>cache := obj_put ?hidden current (d\<lparr>visible := True\<rparr>)\<rparr>"
    by blast
  have "fst ` set (obj_put ?hidden current (d\<lparr>visible := True\<rparr>)) = insert current (fst ` set (cache w))"
    by (simp only: names_obj_put names_hide)
  moreover have "current \<in> fst ` set (cache w)"
    using True by (simp add: obj_has_def)
  ultimately show ?thesis by (auto simp: u)
next
  case False
  then show ?thesis by (simp add: update_absent)
qed

lemma update_fields:
  "keyMap (update w k) = keyMap w \<and> frames (update w k) = frames w \<and>
   requests (update w k) = requests w \<and> embed (update w k) = embed w \<and>
   load_json (update w k) = load_json w \<and> cached (update w k) = cached w \<and>
   current_vals (update w k) = current_vals w \<and> current_frame (update w k) = current_frame w"
  by (cases "map_of (map (\<lambda>p. (fst p, (snd p)\<lparr>visible := False\<rparr>)) (cache w)) k")
     (simp_all add: update_def Let_def)

lemma update_shown_le: "length (shown w) \<le> 1 \<Longrightarrow> length (shown (update w k)) \<le> 1"
  by (cases "obj_has (cache w) k") (simp_all add: update_shown update_absent)

subsection \<open>The other methods, and runs\<close>

lemma shown_put_same:
  "map_of obj k = Some d \<Longrightarrow> visible d' = visible d \<Longrightarrow>
   map fst (filter (\<lambda>p. visible (snd p)) (obj_put obj k d')) =
   map fst (filter (\<lambda>p. visible (snd p)) obj)"
  by (induction obj) (auto split: if_splits)

lemma names_put_present:
  "map_of obj k = Some d \<Longrightarrow> fst ` set (obj_put obj k d') = fst ` set obj"
  by (auto simp: names_obj_put dest: map_of_SomeD intro: rev_image_eqI)

lemma populate_cache_state:
  "state_of (populate_cache w idx) =
     (case map_of (cache w) idx of
        None \<Rightarrow> w
      | Some d \<Rightarrow>
          if load_json w
          then w\<lparr>cache := obj_put (cache w) idx
                  (d\<lparr>content := Load (server w @ ''/'' @ fig_id w @ ''/'' @ show_idx idx)\<rparr>)\<rparr>
          else (case map_of (frames w) idx of
                  None \<Rightarrow> w
                | Some f \<Rightarrow> w\<lparr>cache := obj_put (cache w) idx (d\<lparr>content := Html f\<rparr>)\<rparr>)
               \<lparr>frames := (if embed w then obj_delete (frames w) idx else frames w)\<rparr>)"
  by (simp add: populate_cache_def Let_def split: option.splits)

lemma populate_cache_names:
  "fst ` set (cache (state_of (populate_cache w idx))) = fst ` set (cache w)"
  by (simp add: populate_cache_state names_put_present split: option.splits)

lemma populate_cache_shown: "shown (state_of (populate_cache w idx)) = shown w"
  by (simp add: populate_cache_state shown_def shown_put_same split: option.splits)

lemma populate_cache_fields:
  "keyMap (state_of (populate_cache w idx)) = keyMap w \<and>
   embed (state_of (populate_cache w idx)) = embed w"
  by (simp add: populate_cache_state split: option.splits)

lemma dynamic_update_names:
  "fst ` set (cache (dynamic_update w k)) = fst ` set (cache w)"
  by (simp add: dynamic_update_def update_names)

lemma dynamic_update_fields:
  "keyMap (dynamic_update w k) = keyMap w \<and> embed (dynamic_update w k) = embed w"
  by (simp add: dynamic_update_def update_fields)

lemma shown_cong: "cache u = cache w \<Longrightarrow> shown u = shown w"
  by (simp add: shown_def)

lemma one_shown_cong: "cache u = cache w \<Longrightarrow> one_shown u = one_shown w"
  by (simp add: one_shown_def shown_def)

lemma update_one_shown: "one_shown w \<Longrightarrow> one_shown (update w k)"
  unfolding one_shown_def by (rule update_shown_le)

lemma update_cache_one_shown: "one_shown (state_of (update_cache w)) = one_shown w"
  by (simp add: one_shown_def update_cache_shown)

lemma populate_cache_one_shown: "one_shown (state_of (populate_cache w k)) = one_shown w"
  by (simp add: one_shown_def populate_cache_shown)

lemma dynamic_update_shown_le:
  assumes "one_shown w"
  shows "one_shown (dynamic_update w k)"
proof (cases "obj_has (cache w) k")
  case True
  with assms show ?thesis by (simp add: dynamic_update_def update_one_shown)
next
  case False
  then have "cache (dynamic_update w k) = cache w"
    by (simp add: dynamic_update_def)
  with assms show ?thesis by (simp only: one_shown_cong [of "dynamic_update w k" w])
qed

lemma callback_state:
  "state_of (callback w k msg) =
     (case msg of
        None \<Rightarrow> w
      | Some txt \<Rightarrow>
          update (state_of (update_cache (w\<lparr>frames := obj_put (frames w) k (butlast (tl txt))\<rparr>))) k)"
proof (cases msg)
  case None
  then show ?thesis by (simp add: callback_def)
next
  case (Some body)
  let ?w1 = "w\<lparr>frames := obj_put (frames w) k (butlast (tl body))\<rparr>"
  from update_cache_state [of ?w1] Some show ?thesis
    by (simp add: callback_def) (metis and_then.simps(1) state_of.simps(1))
qed

lemma callback_names:
  "fst ` set (cache w) \<subseteq> fst ` set (cache (state_of (callback w k msg)))"
proof (cases msg)
  case None
  then show ?thesis by (simp add: callback_state)
next
  case (Some body)
  let ?w1 = "w\<lparr>frames := obj_put (frames w) k (butlast (tl body))\<rparr>"
  have "fst ` set (cache ?w1) \<subseteq> fst ` set (cache (state_of (update_cache ?w1)))"
    by (rule update_cache_names)
  with Some show ?thesis by (simp add: callback_state update_names)
qed

lemma callback_fields:
  "keyMap (state_of (callback w k msg)) = keyMap w \<and>
   embed (state_of (callback w k msg)) = embed w \<and>
   requests (state_of (callback w k msg)) = requests w"
  by (cases msg) (simp_all add: callback_state update_fields update_cache_fields)

lemma callback_shown_le:
  "one_shown w \<Longrightarrow> one_shown (state_of (callback w k msg))"
proof (cases msg)
  case None
  then show "one_shown w \<Longrightarrow> ?thesis" by (simp add: callback_state)
next
  case (Some body)
  let ?w1 = "w\<lparr>frames := obj_put (frames w) k (butlast (tl body))\<rparr>"
  assume "one_shown w"
  then have "one_shown ?w1" by (simp add: one_shown_cong [of ?w1 w])
  then have "one_shown (state_of (update_cache ?w1))"
    by (simp only: update_cache_one_shown)
  then show ?thesis using Some by (simp add: callback_state update_one_shown)
qed

lemma init_slider_state:
  "state_of (init_slider w v) =
     (if cached w then update (state_of (update_cache w)) (Idx 0) else dynamic_update w (Idx 0))"
  using update_cache_state [of w]
  by (simp add: init_slider_def) (metis and_then.simps(1) state_of.simps(1))

lemma init_slider_names:
  "fst ` set (cache w) \<subseteq> fst ` set (cache (state_of (init_slider w v)))"
  using update_cache_names [of w]
  by (simp add: init_slider_state update_names dynamic_update_names)

lemma init_slider_fields:
  "keyMap (state_of (init_slider w v)) = keyMap w \<and> embed (state_of (init_slider w v)) = embed w"
  by (simp add: init_slider_state update_fields update_cache_fields dynamic_update_fields)

lemma init_slider_shown_le:
  "one_shown w \<Longrightarrow> one_shown (state_of (init_slider w v))"
  by (simp add: init_slider_state update_one_shown update_cache_one_shown dynamic_update_shown_le)

lemma set_frame_state:
  "state_of (set_frame w v i) =
     (let w1 = w\<lparr>current_vals := array_set (current_vals w) i v\<rparr>
      in case build_key (slider_ids w) (array_set (current_vals w) i v) of
           Inl e \<Rightarrow> w1
         | Inr key \<Rightarrow>
             (let w2 = w1\<lparr>current_frame := lookup_key (keyMap w) key\<rparr>
              in if cached w then update w2 (lookup_key (keyMap w) key)
                 else dynamic_update w2 (lookup_key (keyMap w) key)))"
  by (simp add: set_frame_def Let_def split: sum.splits)

lemma set_frame_names:
  "fst ` set (cache (state_of (set_frame w v i))) = fst ` set (cache w)"
  by (simp add: set_frame_state Let_def update_names dynamic_update_names split: sum.splits)

lemma set_frame_fields:
  "keyMap (state_of (set_frame w v i)) = keyMap w \<and> embed (state_of (set_frame w v i)) = embed w"
  by (simp add: set_frame_state Let_def update_fields dynamic_update_fields split: sum.splits)

lemma set_frame_shown_le:
  assumes "one_shown w"
  shows "one_shown (state_of (set_frame w v i))"
proof -
  have "\<And>u. cache u = cache w \<Longrightarrow> one_shown u"
    using assms one_shown_cong by blast
  then show ?thesis
    by (simp add: set_frame_state Let_def update_one_shown dynamic_update_shown_le split: sum.splits)
qed

lemma perform_names:
  "fst ` set (cache w) \<subseteq> fst ` set (cache (state_of (perform c w)))"
  by (cases c)
     (simp_all add: init_slider_names populate_cache_names dynamic_update_names callback_names
        update_cache_names update_names set_frame_names)

lemma perform_fields:
  "keyMap (state_of (perform c w)) = keyMap w \<and> embed (state_of (perform c w)) = embed w"
  by (cases c)
     (simp_all add: init_slider_fields populate_cache_fields dynamic_update_fields callback_fields
        update_cache_fields update_fields set_frame_fields)

lemma perform_shown_le:
  "one_shown w \<Longrightarrow> one_shown (state_of (perform c w))"
  by (cases c)
     (simp_all add: init_slider_shown_le populate_cache_one_shown dynamic_update_shown_le
        callback_shown_le update_cache_one_shown update_one_shown set_frame_shown_le)

lemma run_names: "fst ` set (cache w) \<subseteq> fst ` set (cache (run cs w))"
proof (induction cs arbitrary: w)
  case Nil
  show ?case by simp
next
  case (Cons c cs)
  have "fst ` set (cache w) \<subseteq> fst ` set (cache (state_of (perform c w)))"
    by (rule perform_names)
  also have "\<dots> \<subseteq> fst ` set (cache (run cs (state_of (perform c w))))"
    by (rule Cons.IH)
  finally show ?case by simp
qed

lemma run_fields: "keyMap (run cs w) = keyMap w \<and> embed (run cs w) = embed w"
  by (induction cs arbitrary: w) (simp_all add: perform_fields)

lemma run_shown_le: "one_shown w \<Longrightarrow> one_shown (run cs w)"
  by (induction cs arbitrary: w) (simp_all add: perform_shown_le)

subsection \<open>Running update_cache again\<close>

lemma update_cache_loop_names:
  "fst ` set (cache w) \<subseteq> fst ` set (cache (state_of (update_cache_loop frame_len i w)))"
  by (rule update_cache_loop_rel [where R = "\<lambda>u v. fst ` set (cache u) \<subseteq> fst ` set (cache v)"])
     (auto simp: cache_entry_state)

lemma cache_entry_has: "obj_has (cache (state_of (cache_entry w k))) k"
  by (simp add: cache_entry_state obj_has_def)

lemma obj_has_mono: "fst ` set a \<subseteq> fst ` set b \<Longrightarrow> obj_has a k \<Longrightarrow> obj_has b k"
  by (auto simp: obj_has_def)

lemma update_cache_loop_again:
  assumes "\<not> embed w" "frames v = frames w" "load_json v = load_json w"
    "fst ` set (cache (state_of (update_cache_loop frame_len i w))) \<subseteq> fst ` set (cache v)"
  shows "update_cache_loop frame_len i v = Returned v"
  using assms
proof (induction frame_len i w arbitrary: v rule: update_cache_loop.induct)
  case (1 frame_len i w)
  let ?k = "if load_json w then Idx i else key_at (obj_keys (frames w)) i"
  have kv: "(if load_json v then Idx i else key_at (obj_keys (frames v)) i) = ?k"
    using "1.prems" by simp
  show ?case
  proof (cases "i < frame_len")
    case False
    then show ?thesis by (simp add: update_cache_loop.simps [of frame_len i v])
  next
    case True
    obtain w' where w': "cache_entry w ?k = Returned w'"
      using cache_entry_returns by blast
    have w'_state: "w' = state_of (cache_entry w ?k)"
      by (simp only: w' state_of.simps)
    have has: "obj_has (cache w') ?k"
      unfolding w'_state by (rule cache_entry_has)
    have same: "\<not> embed w'" "frames w' = frames w" "load_json w' = load_json w"
      using "1.prems"(1) by (simp_all add: w'_state cache_entry_state)
    show ?thesis
    proof (cases ?k)
      case (Idx n)
      have unfold_w: "update_cache_loop frame_len i w = update_cache_loop frame_len (Suc n) w'"
        using w' by (simp add: update_cache_loop.simps [of frame_len i w] True Idx Let_def)
      have "fst ` set (cache w') \<subseteq> fst ` set (cache (state_of (update_cache_loop frame_len (Suc n) w')))"
        by (rule update_cache_loop_names)
      with "1.prems"(4) unfold_w have sub: "fst ` set (cache w') \<subseteq> fst ` set (cache v)"
        by simp
      from sub has have hv: "obj_has (cache v) ?k"
        by (rule obj_has_mono)
      then have ev: "cache_entry v ?k = Returned v"
        by (rule cache_entry_old)
      have "update_cache_loop frame_len (Suc n) v = Returned v"
      proof (rule "1.IH" [OF True HOL.refl w' Idx])
        show "\<not> embed w'" by (rule same)
        show "frames v = frames w'" using "1.prems"(2) same by simp
        show "load_json v = load_json w'" using "1.prems"(3) same by simp
        show "fst ` set (cache (state_of (update_cache_loop frame_len (Suc n) w'))) \<subseteq> fst ` set (cache v)"
          using "1.prems"(4) unfold_w by simp
      qed
      moreover have "update_cache_loop frame_len i v = update_cache_loop frame_len (Suc n) v"
        using ev Idx by (simp add: update_cache_loop.simps [of frame_len i v] True kv Let_def)
      ultimately show ?thesis by simp
    next
      case Undefined
      have unfold_w: "update_cache_loop frame_len i w = Returned w'"
        using w' by (simp add: update_cache_loop.simps [of frame_len i w] True Undefined Let_def)
      with "1.prems"(4) have sub: "fst ` set (cache w') \<subseteq> fst ` set (cache v)"
        by simp
      from sub has have hv: "obj_has (cache v) ?k"
        by (rule obj_has_mono)
      then have ev: "cache_entry v ?k = Returned v"
        by (rule cache_entry_old)
      show ?thesis
        using ev Undefined by (simp add: update_cache_loop.simps [of frame_len i v] True kv Let_def)
    qed
  qed
qed

lemma update_cache_again:
  assumes "\<not> embed w"
  shows "update_cache (state_of (update_cache w)) = update_cache w"
proof -
  define v where "v = state_of (update_cache w)"
  define n where "n = frame_count w"
  have f: "frames v = frames w"
    unfolding v_def using assms by (rule update_cache_frames)
  have l: "load_json v = load_json w" and km: "keyMap v = keyMap w"
    unfolding v_def using update_cache_fields [of w] by simp_all
  have v_loop: "v = state_of (update_cache_loop n 0 w)"
    by (simp add: v_def n_def update_cache_def)
  have "update_cache_loop n 0 v = Returned v"
  proof (rule update_cache_loop_again [OF assms f l])
    show "fst ` set (cache (state_of (update_cache_loop n 0 w))) \<subseteq> fst ` set (cache v)"
      by (simp only: v_loop [symmetric] subset_refl)
  qed
  moreover have "update_cache v = update_cache_loop n 0 v"
    by (simp add: update_cache_def n_def frame_count_def f l km)
  ultimately have "update_cache v = Returned v"
    by simp
  moreover have "update_cache w = Returned v"
    unfolding v_def by (rule update_cache_state)
  ultimately have "update_cache v = update_cache w"
    by simp
  then show ?thesis
    unfolding v_def .
qed

lemma callback_shows:
  assumes "obj_has (cache (state_of (callback w current (Some body)))) current"
  shows "shown (state_of (callback w current (Some body))) = [current]"
proof -
  let ?u = "state_of (update_cache (w\<lparr>frames := obj_put (frames w) current (butlast (tl body))\<rparr>))"
  have s: "state_of (callback w current (Some body)) = update ?u current"
    by (simp add: callback_state)
  from assms have "current \<in> fst ` set (cache (update ?u current))"
    by (simp add: s obj_has_def)
  then have "obj_has (cache ?u) current"
    by (simp add: update_names obj_has_def)
  then show ?thesis
    unfolding s by (rule update_shown)
qed

lemma array_get_set: "array_get (array_set xs i v) i = v"
  by (simp add: array_get_def array_set_def nth_append)

subsection \<open>The callback\<close>





subsection \<open>Frames numbered from 0\<close>

lemma entry_for_cong:
  "img_id u = img_id w \<Longrightarrow> load_json u = load_json w \<Longrightarrow> server u = server w \<Longrightarrow>
   fig_id u = fig_id w \<Longrightarrow> frames u = frames w \<Longrightarrow> entry_for u k = entry_for w k"
  by (simp add: entry_for_def)

lemma update_cache_loop_fills:
  assumes "\<not> embed w" "load_json w \<or> obj_keys (frames w) = map Idx [0..<frame_len]"
  shows "map_of (cache (state_of (update_cache_loop frame_len i w))) k = filled w i frame_len k"
  using assms
proof (induction frame_len i w rule: update_cache_loop.induct)
  case (1 frame_len i w)
  let ?k = "if load_json w then Idx i else key_at (obj_keys (frames w)) i"
  show ?case
  proof (cases "i < frame_len")
    case False
    then have "update_cache_loop frame_len i w = Returned w"
      by (simp add: update_cache_loop.simps [of frame_len i w])
    with False show ?thesis
      by (auto simp: filled_def split: option.splits jsidx.splits)
  next
    case True
    have k: "?k = Idx i"
      using "1.prems"(2) True by (auto simp: key_at_def)
    obtain w' where w': "cache_entry w ?k = Returned w'"
      using cache_entry_returns by blast
    have w'_state: "w' = state_of (cache_entry w (Idx i))"
      using w' k by simp
    have unfold_w: "update_cache_loop frame_len i w = update_cache_loop frame_len (Suc i) w'"
      using w' by (simp add: update_cache_loop.simps [of frame_len i w] True k Let_def)
    have same: "\<not> embed w'" "frames w' = frames w" "load_json w' = load_json w"
      "img_id w' = img_id w" "server w' = server w" "fig_id w' = fig_id w"
      using "1.prems"(1) by (simp_all add: w'_state cache_entry_state)
    have e: "\<And>k. entry_for w' k = entry_for w k"
      by (rule entry_for_cong) (simp_all add: same)
    have ih: "map_of (cache (state_of (update_cache_loop frame_len (Suc i) w'))) k =
        filled w' (Suc i) frame_len k"
    proof (rule "1.IH" [OF True HOL.refl w' k])
      show "\<not> embed w'" by (rule same)
      show "load_json w' \<or> obj_keys (frames w') = map Idx [0..<frame_len]"
        using "1.prems"(2) same by simp
    qed
    have c: "map_of (cache w') k =
        (case map_of (cache w) k of Some d \<Rightarrow> Some d
         | None \<Rightarrow> if k = Idx i then Some (entry_for w k) else None)"
      by (auto simp: w'_state cache_entry_state obj_has_map_of map_add_def split: option.splits)
    have "filled w' (Suc i) frame_len k = filled w i frame_len k"
      using True by (auto simp: filled_def c e split: option.splits jsidx.splits)
    with ih unfold_w show ?thesis by simp
  qed
qed


lemma update_cache_frame_count: "update_cache w = update_cache_loop (frame_count w) 0 w"
  by (simp add: update_cache_def)

lemma update_cache_fills:
  assumes "\<not> embed w" "cache w = []"
    "load_json w \<or> obj_keys (frames w) = map Idx [0..<frame_count w]"
  shows "map_of (cache (state_of (update_cache w))) k =
     (case k of Idx j \<Rightarrow> if j < frame_count w then Some (entry_for w k) else None
      | Undefined \<Rightarrow> None)"
proof -
  have "map_of (cache (state_of (update_cache w))) k = filled w 0 (frame_count w) k"
    unfolding update_cache_frame_count using assms(1,3) by (rule update_cache_loop_fills)
  then show ?thesis
    using assms(2) by (simp add: filled_def split: jsidx.splits)
qed

lemma init_slider_cached_fills:
  assumes "cached w" "\<not> embed w" "cache w = []"
    "load_json w \<or> obj_keys (frames w) = map Idx [0..<frame_count w]"
  shows "\<exists>w'. init_slider w v = Returned w' \<and>
     (\<forall>k. map_of (cache w') k =
        (case k of
           Idx j \<Rightarrow> if j < frame_count w then Some ((entry_for w k)\<lparr>visible := (j = 0)\<rparr>) else None
         | Undefined \<Rightarrow> None)) \<and>
     requests w' = requests w \<and> frames w' = frames w"
proof -
  define u where "u = state_of (update_cache w)"
  have m: "\<And>k. map_of (cache u) k =
     (case k of Idx j \<Rightarrow> if j < frame_count w then Some (entry_for w k) else None
      | Undefined \<Rightarrow> None)"
    unfolding u_def using assms(2,3,4) by (rule update_cache_fills)
  have r: "init_slider w v = Returned (update u (Idx 0))"
    using update_cache_state [of w] assms(1) by (cases "update_cache w") (simp_all add: init_slider_def u_def)
  have f: "requests (update u (Idx 0)) = requests w" "frames (update u (Idx 0)) = frames w"
    using update_cache_fields [of w] update_cache_frames [OF assms(2)]
    by (simp_all add: update_fields u_def)
  have c: "map_of (cache (update u (Idx 0))) k =
        (case k of
           Idx j \<Rightarrow> if j < frame_count w then Some ((entry_for w k)\<lparr>visible := (j = 0)\<rparr>) else None
         | Undefined \<Rightarrow> None)" for k
  proof (cases "obj_has (cache u) (Idx 0)")
    case True
    then show ?thesis
      by (simp add: update_map_of m split: jsidx.splits)
  next
    case False
    then have "frame_count w = 0"
      by (simp add: obj_has_map_of m split: if_splits)
    with False show ?thesis
      by (simp add: update_absent m split: jsidx.splits)
  qed
  from r f c show ?thesis by blast
qed

subsection \<open>The key: its form, and when there is none\<close>

lemma format_val_number:
  "x \<noteq> NaN \<Longrightarrow> format_val (JNum x) = Inr (toFixed x (if is_whole x then 1 else 10))"
  by (simp add: format_val_def)

lemma format_val_string:
  "format_val (JStr s) = (if string_is_number s then Inl TypeError else Inr s)"
  by (simp add: format_val_def)

lemma format_val_raises:
  "(format_val v = Inl e) =
     (e = TypeError \<and> ((\<exists>s. v = JStr s \<and> string_is_number s) \<or> v = JNull \<or> (\<exists>b. v = JBool b)))"
  by (cases v; cases e) (auto simp: format_val_def)

lemma key_loop_form:
  assumes "\<forall>j. i \<le> j \<and> j < length ids \<longrightarrow> format_val (array_get vals j) = Inr (f j)"
  shows "key_loop ids vals i key =
     Inr (key @ concat (map (\<lambda>j. [CHR 0x27] @ f j @ [CHR 0x27] @
            (if j \<noteq> length ids - 1 then '', '' else if length ids = 1 then '','' else ''''))
          [i..<length ids]))"
  using assms
proof (induction ids vals i key rule: key_loop.induct)
  case (1 ids vals i key)
  show ?case
  proof (cases "i < length ids")
    case False
    then show ?thesis by (simp add: key_loop.simps [of ids vals i key])
  next
    case True
    have fi: "format_val (array_get vals i) = Inr (f i)"
      using "1.prems" True by simp
    let ?key' = "key @ [CHR 0x27] @ f i @ [CHR 0x27] @
                   (if i \<noteq> length ids - 1 then '', ''
                    else if length ids = 1 then '','' else '''')"
    have "key_loop ids vals (Suc i) ?key' =
       Inr (?key' @ concat (map (\<lambda>j. [CHR 0x27] @ f j @ [CHR 0x27] @
            (if j \<noteq> length ids - 1 then '', '' else if length ids = 1 then '','' else ''''))
          [Suc i..<length ids]))"
      using "1.prems" by (intro "1.IH" [OF True fi]) simp
    moreover have "key_loop ids vals i key = key_loop ids vals (Suc i) ?key'"
      by (subst key_loop.simps) (simp add: True fi)
    moreover have "[i..<length ids] = i # [Suc i..<length ids]"
      using True by (simp add: upt_conv_Cons)
    ultimately show ?thesis by simp
  qed
qed

lemma key_loop_raises:
  assumes "i \<le> j" "j < length ids" "format_val (array_get vals j) = Inl e"
  shows "\<exists>e'. key_loop ids vals i key = Inl e'"
  using assms
proof (induction ids vals i key rule: key_loop.induct)
  case (1 ids vals i key)
  from "1.prems" have True: "i < length ids" by simp
  show ?case
  proof (cases "format_val (array_get vals i)")
    case (Inl e')
    then show ?thesis
      by (subst key_loop.simps) (simp add: True)
  next
    case (Inr s)
    with "1.prems" have "i \<noteq> j" by auto
    with "1.prems" have "Suc i \<le> j" by simp
    then have "\<exists>e'. key_loop ids vals (Suc i)
         (key @ [CHR 0x27] @ s @ [CHR 0x27] @
            (if i \<noteq> length ids - 1 then '', ''
             else if length ids = 1 then '','' else '''')) = Inl e'"
      using "1.prems" by (intro "1.IH" [OF True Inr]) simp_all
    then show ?thesis
      by (subst key_loop.simps) (simp add: True Inr)
  qed
qed

lemma build_key_form:
  assumes "\<forall>j < length ids. format_val (array_get vals j) = Inr (f j)"
  shows "build_key ids vals =
     Inr (''('' @ concat (map (\<lambda>j. [CHR 0x27] @ f j @ [CHR 0x27] @
            (if j \<noteq> length ids - 1 then '', '' else if length ids = 1 then '','' else ''''))
          [0..<length ids]) @ '')'')"
  using key_loop_form [of 0 ids vals f "''(''"] assms by (simp add: build_key_def)

lemma build_key_raises_iff:
  "(build_key ids vals = Inl TypeError) =
     (\<exists>j < length ids. format_val (array_get vals j) = Inl TypeError)"
proof
  assume l: "build_key ids vals = Inl TypeError"
  show "\<exists>j < length ids. format_val (array_get vals j) = Inl TypeError"
  proof (rule ccontr)
    assume "\<not> (\<exists>j < length ids. format_val (array_get vals j) = Inl TypeError)"
    then have "\<forall>j < length ids. \<exists>s. format_val (array_get vals j) = Inr s"
      by (metis js_error.exhaust sum.exhaust)
    then obtain f where "\<forall>j < length ids. format_val (array_get vals j) = Inr (f j)"
      by metis
    from build_key_form [OF this] l show False by simp
  qed
next
  assume "\<exists>j < length ids. format_val (array_get vals j) = Inl TypeError"
  then obtain j where "j < length ids" "format_val (array_get vals j) = Inl TypeError"
    by blast
  then obtain e' where "key_loop ids vals 0 ''('' = Inl e'"
    using key_loop_raises [of 0 j ids vals TypeError] by auto
  then show "build_key ids vals = Inl TypeError"
    by (cases e') (simp add: build_key_def)
qed

lemma show_nat_numeral:
  "show_nat (numeral k) =
     (if numeral k < (10::nat) then [digit_char (numeral k)]
      else show_nat (numeral k div 10) @ [digit_char (numeral k mod 10)])"
  by (rule show_nat.simps)

lemma show_nat_small: "show_nat 0 = ''0''" "show_nat 1 = ''1''" "show_nat (Suc 0) = ''1''"
  by (simp_all add: show_nat.simps digit_char_def)

lemma toFixed_example: "toFixed (Fin 5 1) 10 = ''0.5000000000''"
  by (simp add: Let_def show_nat_numeral show_nat_small digit_char_def)

lemma format_val_example: "format_val (JNum (Fin 5 1)) = Inr ''0.5000000000''"
proof -
  have "\<not> is_whole (Fin 5 1)"
    by simp
  then have "format_val (JNum (Fin 5 1)) = Inr (toFixed (Fin 5 1) 10)"
    by (simp only: format_val_number [of "Fin 5 1"] jsnum.distinct if_False not_False_eq_True)
  then show ?thesis
    by (simp only: toFixed_example)
qed

lemma build_key_example:
  "build_key [''x'', ''y''] [JNum (Fin 1 0), JNum (Fin 5 1)] = Inr ''('1.0', '0.5000000000')''"
proof -
  let ?vals = "[JNum (Fin 1 0), JNum (Fin 5 1)]"
  let ?strs = "[''1.0'', ''0.5000000000'']"
  have g0: "array_get ?vals 0 = JNum (Fin 1 0)" and g1: "array_get ?vals 1 = JNum (Fin 5 1)"
    and s0: "?strs ! 0 = ''1.0''" and s1: "?strs ! 1 = ''0.5000000000''"
    by code_simp+
  have a: "format_val (JNum (Fin 1 0)) = Inr ''1.0''"
    by code_simp
  have "\<forall>j < length [''x'', ''y'']. format_val (array_get ?vals j) = Inr (?strs ! j)"
  proof (intro allI impI)
    fix j :: nat
    assume "j < length [''x'', ''y'']"
    then consider "j = 0" | "j = 1"
      by (auto simp: less_Suc_eq)
    then show "format_val (array_get ?vals j) = Inr (?strs ! j)"
    proof cases
      case 1
      show ?thesis unfolding 1 by (simp only: g0 s0 a)
    next
      case 2
      show ?thesis unfolding 2 by (simp only: g1 s1 format_val_example)
    qed
  qed
  from build_key_form [OF this] show ?thesis
    by (simp add: upt_rec)
qed

lemma set_frame_stages:
  assumes "build_key (slider_ids w) (array_set (current_vals w) dim_idx dim_val) = Inr key"
  shows "set_frame w dim_val dim_idx =
     Returned
       (if cached w
        then update (w\<lparr>current_vals := array_set (current_vals w) dim_idx dim_val,
                       current_frame := lookup_key (keyMap w) key\<rparr>) (lookup_key (keyMap w) key)
        else dynamic_update (w\<lparr>current_vals := array_set (current_vals w) dim_idx dim_val,
                       current_frame := lookup_key (keyMap w) key\<rparr>) (lookup_key (keyMap w) key))"
  using assms by (simp add: set_frame_def Let_def)

lemma set_frame_raises_iff:
  "(set_frame w dim_val dim_idx =
      Threw TypeError (w\<lparr>current_vals := array_set (current_vals w) dim_idx dim_val\<rparr>)) =
   (\<exists>j < length (slider_ids w).
      format_val (array_get (array_set (current_vals w) dim_idx dim_val) j) = Inl TypeError)"
proof -
  have "(set_frame w dim_val dim_idx =
      Threw TypeError (w\<lparr>current_vals := array_set (current_vals w) dim_idx dim_val\<rparr>)) =
    (build_key (slider_ids w) (array_set (current_vals w) dim_idx dim_val) = Inl TypeError)"
    by (cases "build_key (slider_ids w) (array_set (current_vals w) dim_idx dim_val)")
       (auto simp: set_frame_def Let_def intro: js_error.exhaust)
  then show ?thesis
    by (simp only: build_key_raises_iff)
qed

subsection \<open>The callback and the entries of the cache\<close>






section \<open>The claims\<close>

text \<open>
  Claim C1, at the input where the code leaves it: the dropdown value 2016, a string that
  \<^verbatim>\<open>isNaN\<close> takes for a number. \<open>set_frame\<close> stores the value and raises at \<^verbatim>\<open>toFixed\<close>;
  no key is built, \<open>current_frame\<close> stays at frame 0, though the key map has the key of
  that value, for frame 1.
\<close>

theorem set_frame_numeric_string_raises:
  "set_frame demo_years (JStr ''2016'') 0 =
     Threw TypeError (demo_years\<lparr>current_vals := [JStr ''2016'']\<rparr>) \<and>
   current_frame (state_of (set_frame demo_years (JStr ''2016'') 0)) = Idx 0 \<and>
   lookup_key (keyMap demo_years) ''('2016',)'' = Idx 1"
  by code_simp

text \<open>
  Claim C2, at the input where the code leaves it. The live widget has the frames 0 and 2
  and has sent its one command for frame 3. When the answer is handled, the frame is put
  into \<open>frames\<close>, but the loop of \<open>update_cache\<close> goes from the name 0 to the counter 1, from
  the name 2 to the counter 3 and stops: frame 3 gets no cache entry, and frame 2 stays the
  one shown.
\<close>

theorem callback_misses_frame:
  "\<not> obj_has (cache demo_gap) (Idx 3) \<and>
   map target (requests demo_gap) = [Idx 0, Idx 2, Idx 3] \<and>
   map fst (cache demo_gap) = [Idx 0, Idx 2] \<and>
   frames (state_of (callback demo_gap (Idx 3) (Some answer_a))) =
     [(Idx 0, ''<p>A</p>''), (Idx 2, ''<p>B</p>''), (Idx 3, ''<p>A</p>'')] \<and>
   map fst (cache (state_of (callback demo_gap (Idx 3) (Some answer_a)))) = [Idx 0, Idx 2] \<and>
   shown (state_of (callback demo_gap (Idx 3) (Some answer_a))) = [Idx 2]"
  by code_simp

text \<open>
  For C2, what holds at every input. \<open>dynamic_update\<close> on a name in the cache is \<open>update\<close>
  and sends nothing. On a name not in the cache it appends exactly one command for that
  index to the requests and leaves everything else, the cache included, as it was: the
  frame is not cached by the call. The callback sends no command of its own, and when it
  has left the frame in the cache, the frame is the one shown.
\<close>

lemma dynamic_update_requests:
  "(obj_has (cache w) current \<longrightarrow>
      dynamic_update w current = update w current \<and>
      requests (dynamic_update w current) = requests w) \<and>
   (\<not> obj_has (cache w) current \<longrightarrow>
      dynamic_update w current =
        w\<lparr>requests := requests w @
             [\<lparr>code = ''import holoviews;holoviews.plotting.widgets.NdWidget.widgets['' @
                       [CHR 0x27] @ id_w w @ [CHR 0x27] @ ''].update('' @ show_idx current @ '')'',
               target = current\<rparr>]\<rparr> \<and>
      cache (dynamic_update w current) = cache w \<and>
      \<not> obj_has (cache (dynamic_update w current)) current) \<and>
   requests (state_of (callback w current msg)) = requests w \<and>
   (obj_has (cache (state_of (callback w current (Some body)))) current \<longrightarrow>
      shown (state_of (callback w current (Some body))) = [current])"
  using callback_fields [of w current msg] callback_shows [of w current body]
  by (simp add: dynamic_update_def update_fields)

lemma dynamic_update_requests_example:
  "\<not> obj_has (cache demo_live) (Idx 1) \<and>
   map target (requests (dynamic_update demo_live (Idx 1))) = [Idx 0, Idx 1] \<and>
   cache (dynamic_update demo_live (Idx 1)) = cache demo_live \<and>
   obj_has (cache demo_cached) (Idx 1) \<and>
   dynamic_update demo_cached (Idx 1) = update demo_cached (Idx 1) \<and>
   requests (dynamic_update demo_cached (Idx 1)) = requests demo_cached"
proof -
  have a: "\<not> obj_has (cache demo_live) (Idx 1)" by code_simp
  have b: "obj_has (cache demo_cached) (Idx 1)" by code_simp
  have c: "map target (requests demo_live) = [Idx 0]" by code_simp
  from a have d: "dynamic_update demo_live (Idx 1) =
        demo_live\<lparr>requests := requests demo_live @
             [\<lparr>code = ''import holoviews;holoviews.plotting.widgets.NdWidget.widgets['' @
                       [CHR 0x27] @ id_w demo_live @ [CHR 0x27] @ ''].update('' @ show_idx (Idx 1) @ '')'',
               target = Idx 1\<rparr>]\<rparr>"
    and e: "cache (dynamic_update demo_live (Idx 1)) = cache demo_live"
    using dynamic_update_requests [of demo_live "Idx 1"] by blast+
  from b have f: "dynamic_update demo_cached (Idx 1) = update demo_cached (Idx 1)"
    "requests (dynamic_update demo_cached (Idx 1)) = requests demo_cached"
    using dynamic_update_requests [of demo_cached "Idx 1"] by blast+
  have "map target (requests (dynamic_update demo_live (Idx 1))) = [Idx 0, Idx 1]"
    unfolding d by (simp add: c)
  with a b e f show ?thesis by blast
qed

text \<open>
  Claim C3, at the same input: the string 2016 is not a NaN for \<^verbatim>\<open>isNaN\<close>, so it is
  neither formatted (a string has no \<^verbatim>\<open>toFixed\<close>) nor used as it is, and no key
  results, alone or beside a number. A string that is no number is used as it is.
\<close>

theorem key_of_numeric_string_raises:
  "isNaN (JStr ''2016'') = False \<and>
   format_val (JStr ''2016'') = Inl TypeError \<and>
   build_key [''year''] [JStr ''2016''] = Inl TypeError \<and>
   build_key [''x'', ''year''] [JNum (Fin 1 0), JStr ''2016''] = Inl TypeError \<and>
   build_key [''x'', ''name''] [JNum (Fin 1 0), JStr ''a''] = Inr ''('1.0', 'a')''"
  by code_simp

text \<open>
  Claim C4. The cache is empty when the constructor has set the fields, and no method
  removes a property from it: after \<open>init_slider\<close>, \<open>update_cache\<close>, \<open>populate_cache\<close>,
  \<open>dynamic_update\<close>, \<open>update\<close>, \<open>set_frame\<close>, a kernel's answer, or any run of them, every
  property name the cache had is still there.
\<close>

theorem cache_never_shrinks:
  "cache (fresh_widget srv fr ident sl km dv nf js md ch) = [] \<and>
   cache_keys w \<subseteq> cache_keys (state_of (init_slider w v)) \<and>
   cache_keys w \<subseteq> cache_keys (state_of (update_cache w)) \<and>
   cache_keys w \<subseteq> cache_keys (state_of (populate_cache w k)) \<and>
   cache_keys w \<subseteq> cache_keys (dynamic_update w k) \<and>
   cache_keys w \<subseteq> cache_keys (update w k) \<and>
   cache_keys w \<subseteq> cache_keys (state_of (set_frame w v i)) \<and>
   cache_keys w \<subseteq> cache_keys (state_of (callback w k msg)) \<and>
   cache_keys w \<subseteq> cache_keys (run cs w)"
  using init_slider_names [of w v] update_cache_names [of w] populate_cache_names [of w k]
    dynamic_update_names [of w k] update_names [of w k] set_frame_names [of w v i]
    callback_names [of w k msg] run_names [of w cs]
  by (simp add: cache_keys_def fresh_widget_def)


theorem cache_never_shrinks_witness:
  "cache_keys demo_cached = {Idx 0, Idx 1} \<and>
   {Idx 0, Idx 1} \<subseteq> cache_keys (run [Set_frame (JNum (Fin 1 0)) 0, Update_cache] demo_cached)"
proof -
  have a: "cache_keys demo_cached = {Idx 0, Idx 1}"
    by code_simp
  have "cache_keys demo_cached \<subseteq>
        cache_keys (run [Set_frame (JNum (Fin 1 0)) 0, Update_cache] demo_cached)"
    using cache_never_shrinks [of _ _ _ _ _ _ _ _ _ _ demo_cached] by blast
  with a show ?thesis by simp
qed

text \<open>
  Claim C5, as amended. The key map is the constructor's argument from the start, and no
  method changes it: after the constructor and after any run of calls it is that
  argument, with nothing added and nothing removed.
\<close>

theorem keyMap_fixed:
  "keyMap (fresh_widget srv fr ident sl km dv nf js md ch) = km \<and>
   keyMap (state_of (new_widget srv fr ident sl km dv nf js md ch)) = km \<and>
   keyMap (state_of (perform c w)) = keyMap w \<and>
   keyMap (run cs (state_of (new_widget srv fr ident sl km dv nf js md ch))) = km"
proof -
  have a: "keyMap (fresh_widget srv fr ident sl km dv nf js md ch) = km"
    by (simp add: fresh_widget_def)
  then have b: "keyMap (state_of (new_widget srv fr ident sl km dv nf js md ch)) = km"
    by (simp add: new_widget_def init_slider_fields)
  from b have "keyMap (run cs (state_of (new_widget srv fr ident sl km dv nf js md ch))) = km"
    by (simp add: run_fields)
  with a b show ?thesis by (simp add: perform_fields)
qed

theorem keyMap_fixed_witness:
  "keyMap (run [Set_frame (JNum (Fin 1 0)) 0, Update_cache, Callback (Idx 1) (Some ''.x.'')]
     (state_of (new_widget ''srv'' [(Idx 0, ''<p>0</p>''), (Idx 1, ''<p>1</p>'')] ''7'' [''x'']
        demo_keys [JNum (Fin 0 0)] ''nf'' False ''m'' True))) = demo_keys"
  using keyMap_fixed [of _ _ _ _ demo_keys] by blast

text \<open>Against C5 as stated: right after the constructor the key map holds both its
  entries already, and a later \<open>set_frame\<close> adds none.\<close>

theorem keyMap_not_lazy_counterexample:
  "keyMap demo_cached = [(''('0.0',)'', 0), (''('1.0',)'', 1)] \<and>
   keyMap (state_of (set_frame demo_cached (JNum (Fin 1 0)) 0)) =
     [(''('0.0',)'', 0), (''('1.0',)'', 1)]"
  by code_simp

text \<open>
  Claim C6, as amended. The constructor leaves the cache empty and then runs \<open>init_slider\<close>,
  once. In cached mode, with \<open>load_json\<close> or with frames numbered from 0, the cache then
  has an entry for every index below the number of frames and for nothing else, each as
  \<open>populate_cache\<close> fills it, and the entry of frame 0 is the visible one; when there is no
  frame, none is. No command is sent. In the other mode the cache stays empty and exactly
  one command, for frame 0, is sent.
\<close>

theorem constructor_fills_cache:
  assumes "w0 = fresh_widget srv fr ident sl km dv nf js md ch"
  shows "cache w0 = [] \<and>
     new_widget srv fr ident sl km dv nf js md ch = init_slider w0 (array_get dv 0) \<and>
     (ch \<and> (js \<or> obj_keys fr = map Idx [0..<frame_count w0]) \<longrightarrow>
        (\<exists>w'. new_widget srv fr ident sl km dv nf js md ch = Returned w' \<and>
           (\<forall>k. map_of (cache w') k =
              (case k of
                 Idx j \<Rightarrow> if j < frame_count w0
                          then Some ((entry_for w0 k)\<lparr>visible := (j = 0)\<rparr>) else None
               | Undefined \<Rightarrow> None)) \<and>
           requests w' = [] \<and> frames w' = fr)) \<and>
     (\<not> ch \<longrightarrow>
        new_widget srv fr ident sl km dv nf js md ch =
          Returned (w0\<lparr>requests :=
             [\<lparr>code = ''import holoviews;holoviews.plotting.widgets.NdWidget.widgets['' @
                       [CHR 0x27] @ ident @ [CHR 0x27] @ ''].update(0)'',
               target = Idx 0\<rparr>]\<rparr>))"
proof -
  have f: "cache w0 = []" "\<not> embed w0" "cached w0 = ch" "load_json w0 = js" "frames w0 = fr"
    "requests w0 = []" "id_w w0 = ident"
    by (simp_all add: assms fresh_widget_def)
  have n: "new_widget srv fr ident sl km dv nf js md ch = init_slider w0 (array_get dv 0)"
    by (simp add: new_widget_def assms)
  have a: "ch \<and> (js \<or> obj_keys fr = map Idx [0..<frame_count w0]) \<longrightarrow>
        (\<exists>w'. init_slider w0 (array_get dv 0) = Returned w' \<and>
           (\<forall>k. map_of (cache w') k =
              (case k of
                 Idx j \<Rightarrow> if j < frame_count w0
                          then Some ((entry_for w0 k)\<lparr>visible := (j = 0)\<rparr>) else None
               | Undefined \<Rightarrow> None)) \<and>
           requests w' = [] \<and> frames w' = fr)"
    using init_slider_cached_fills [of w0 "array_get dv 0"] f by auto
  have "show_nat 0 = ''0''"
    by (simp add: show_nat.simps digit_char_def)
  then have b: "\<not> ch \<longrightarrow> init_slider w0 (array_get dv 0) =
          Returned (w0\<lparr>requests :=
             [\<lparr>code = ''import holoviews;holoviews.plotting.widgets.NdWidget.widgets['' @
                       [CHR 0x27] @ ident @ [CHR 0x27] @ ''].update(0)'',
               target = Idx 0\<rparr>]\<rparr>)"
    using f by (simp add: init_slider_def dynamic_update_def obj_has_def)
  show ?thesis
    unfolding n using f(1) a b by blast
qed

theorem constructor_fills_cache_witness:
  "obj_keys [(Idx 0, ''<p>0</p>''), (Idx 1, ''<p>1</p>'')] = map Idx [0..<2] \<and>
   (\<exists>w'. new_widget ''srv'' [(Idx 0, ''<p>0</p>''), (Idx 1, ''<p>1</p>'')] ''7'' [''x'']
            demo_keys [JNum (Fin 0 0)] ''nf'' False ''m'' True = Returned w' \<and>
         map_of (cache w') (Idx 0) =
           Some \<lparr>frag_id = Some ''_anim_img7_0'', visible = True, content = Html ''<p>0</p>''\<rparr> \<and>
         map_of (cache w') (Idx 1) =
           Some \<lparr>frag_id = Some ''_anim_img7_1'', visible = False, content = Html ''<p>1</p>''\<rparr> \<and>
         map_of (cache w') (Idx 2) = None \<and> requests w' = []) \<and>
   map target (requests (state_of (new_widget ''srv'' [] ''7'' [''x''] demo_keys [JNum (Fin 0 0)]
      ''nf'' False ''m'' False))) = [Idx 0]"
proof -
  let ?fr = "[(Idx 0, ''<p>0</p>''), (Idx 1, ''<p>1</p>'')]"
  let ?w0 = "fresh_widget ''srv'' ?fr ''7'' [''x''] demo_keys [JNum (Fin 0 0)] ''nf'' False ''m'' True"
  let ?v0 = "fresh_widget ''srv'' [] ''7'' [''x''] demo_keys [JNum (Fin 0 0)] ''nf'' False ''m'' False"
  note t = constructor_fills_cache [OF HOL.refl, of "''srv''" ?fr "''7''" "[''x'']" demo_keys
      "[JNum (Fin 0 0)]" "''nf''" False "''m''" True]
  note t' = constructor_fills_cache [OF HOL.refl, of "''srv''" "[]" "''7''" "[''x'']" demo_keys
      "[JNum (Fin 0 0)]" "''nf''" False "''m''" False]
  have a: "obj_keys ?fr = map Idx [0..<2]"
    by code_simp
  have k: "obj_keys ?fr = map Idx [0..<frame_count ?w0]"
    by code_simp
  from t k obtain w' where
    r: "new_widget ''srv'' ?fr ''7'' [''x''] demo_keys [JNum (Fin 0 0)] ''nf'' False ''m'' True = Returned w'"
    and m: "\<forall>k. map_of (cache w') k =
              (case k of
                 Idx j \<Rightarrow> if j < frame_count ?w0
                          then Some ((entry_for ?w0 k)\<lparr>visible := (j = 0)\<rparr>) else None
               | Undefined \<Rightarrow> None)"
    and q: "requests w' = []"
    by blast
  have e0: "(case Idx 0 of
                 Idx j \<Rightarrow> if j < frame_count ?w0
                          then Some ((entry_for ?w0 (Idx 0))\<lparr>visible := (j = 0)\<rparr>) else None
               | Undefined \<Rightarrow> None) =
      Some \<lparr>frag_id = Some ''_anim_img7_0'', visible = True, content = Html ''<p>0</p>''\<rparr>"
    by code_simp
  have e1: "(case Idx 1 of
                 Idx j \<Rightarrow> if j < frame_count ?w0
                          then Some ((entry_for ?w0 (Idx 1))\<lparr>visible := (j = 0)\<rparr>) else None
               | Undefined \<Rightarrow> None) =
      Some \<lparr>frag_id = Some ''_anim_img7_1'', visible = False, content = Html ''<p>1</p>''\<rparr>"
    by code_simp
  have e2: "(case Idx 2 of
                 Idx j \<Rightarrow> if j < frame_count ?w0
                          then Some ((entry_for ?w0 (Idx 2))\<lparr>visible := (j = 0)\<rparr>) else None
               | Undefined \<Rightarrow> None) = None"
    by code_simp
  note m0 = m [rule_format, of "Idx 0", unfolded e0]
    and m1 = m [rule_format, of "Idx 1", unfolded e1]
    and m2 = m [rule_format, of "Idx 2", unfolded e2]
  from t' have "new_widget ''srv'' [] ''7'' [''x''] demo_keys [JNum (Fin 0 0)] ''nf'' False ''m'' False =
          Returned (?v0\<lparr>requests :=
             [\<lparr>code = ''import holoviews;holoviews.plotting.widgets.NdWidget.widgets['' @
                       [CHR 0x27] @ ''7'' @ [CHR 0x27] @ ''].update(0)'',
               target = Idx 0\<rparr>]\<rparr>)"
    by blast
  then have l: "map target (requests (state_of (new_widget ''srv'' [] ''7'' [''x''] demo_keys
      [JNum (Fin 0 0)] ''nf'' False ''m'' False))) = [Idx 0]"
    by simp
  from a r m0 m1 m2 q l show ?thesis by blast
qed

text \<open>Against C6 as stated: a cached widget without frames displays no frame 0.\<close>

theorem no_frame_counterexample:
  "cached demo_empty \<and> cache demo_empty = [] \<and> shown demo_empty = [] \<and>
   \<not> obj_has (cache demo_empty) (Idx 0)"
  by code_simp




text \<open>
  Claim C8. \<open>update\<close> on a name that is not in the cache changes nothing. On a name in
  the cache it hides every entry and shows that one, leaving the entries otherwise as they
  were. After the constructor and any run of calls, an \<open>update\<close> leaves at most one cache
  entry visible.
\<close>

theorem update_shows_one:
  "(\<not> obj_has (cache w) current \<longrightarrow> update w current = w) \<and>
   (obj_has (cache w) current \<longrightarrow>
      (\<forall>k. map_of (cache (update w current)) k =
            map_option (\<lambda>d. d\<lparr>visible := (k = current)\<rparr>) (map_of (cache w) k)) \<and>
      shown (update w current) = [current]) \<and>
   one_shown (update (run cs (state_of (new_widget srv fr ident sl km dv nf js md ch))) current)"
proof -
  have "one_shown (fresh_widget srv fr ident sl km dv nf js md ch)"
    by (simp add: one_shown_def shown_def fresh_widget_def)
  then have "one_shown (state_of (new_widget srv fr ident sl km dv nf js md ch))"
    by (simp add: new_widget_def init_slider_shown_le)
  then have "one_shown (update (run cs (state_of (new_widget srv fr ident sl km dv nf js md ch))) current)"
    by (simp add: run_shown_le update_one_shown)
  then show ?thesis
    by (simp add: update_absent update_map_of update_shown)
qed

theorem update_shows_one_witness:
  "\<not> obj_has (cache demo_cached) (Idx 5) \<and> update demo_cached (Idx 5) = demo_cached \<and>
   obj_has (cache demo_cached) (Idx 1) \<and> shown (update demo_cached (Idx 1)) = [Idx 1] \<and>
   map_of (cache (update demo_cached (Idx 1))) (Idx 0) =
     map_option (\<lambda>d. d\<lparr>visible := False\<rparr>) (map_of (cache demo_cached) (Idx 0))"
proof -
  have a: "\<not> obj_has (cache demo_cached) (Idx 5)" by code_simp
  have b: "obj_has (cache demo_cached) (Idx 1)" by code_simp
  from a have c: "update demo_cached (Idx 5) = demo_cached"
    using update_shows_one [of demo_cached "Idx 5"] by blast
  from b have d: "shown (update demo_cached (Idx 1)) = [Idx 1]"
    using update_shows_one [of demo_cached "Idx 1"] by blast
  from b have "\<forall>k. map_of (cache (update demo_cached (Idx 1))) k =
      map_option (\<lambda>d. d\<lparr>visible := (k = Idx 1)\<rparr>) (map_of (cache demo_cached) k)"
    using update_shows_one [of demo_cached "Idx 1"] by blast
  then have "map_of (cache (update demo_cached (Idx 1))) (Idx 0) =
      map_option (\<lambda>d. d\<lparr>visible := (Idx 0 = Idx 1)\<rparr>) (map_of (cache demo_cached) (Idx 0))"
    by (rule spec)
  with a b c d show ?thesis by simp
qed

text \<open>
  Claim C9. \<open>update_cache\<close> leaves every entry the cache already has as it is, and it
  returns. On a widget whose \<open>embed\<close> is not set (the frames stay as they are) a second
  \<open>update_cache\<close> right after the first changes nothing: it returns the same object. So it
  is after the constructor and any run of calls, where \<open>embed\<close> is never set.
\<close>

theorem update_cache_keeps_entries:
  "(\<forall>k d. map_of (cache w) k = Some d \<longrightarrow> map_of (cache (state_of (update_cache w))) k = Some d) \<and>
   (\<exists>w'. update_cache w = Returned w') \<and>
   (\<not> embed w \<longrightarrow> update_cache (state_of (update_cache w)) = update_cache w) \<and>
   update_cache (state_of (update_cache
       (run cs (state_of (new_widget srv fr ident sl km dv nf js md ch))))) =
     update_cache (run cs (state_of (new_widget srv fr ident sl km dv nf js md ch)))"
proof -
  have "\<not> embed (fresh_widget srv fr ident sl km dv nf js md ch)"
    by (simp add: fresh_widget_def)
  then have "\<not> embed (run cs (state_of (new_widget srv fr ident sl km dv nf js md ch)))"
    by (simp add: run_fields new_widget_def init_slider_fields)
  then show ?thesis
    using update_cache_keeps [of w] update_cache_returns [of w] update_cache_again by blast
qed

theorem update_cache_keeps_entries_witness:
  "map_of (cache demo_more) (Idx 0) =
     Some \<lparr>frag_id = Some ''_anim_img7_0'', visible = True, content = Html ''<p>0</p>''\<rparr> \<and>
   map_of (cache (state_of (update_cache demo_more))) (Idx 0) =
     Some \<lparr>frag_id = Some ''_anim_img7_0'', visible = True, content = Html ''<p>0</p>''\<rparr> \<and>
   map fst (cache (state_of (update_cache demo_more))) = [Idx 0, Idx 1, Idx 2] \<and>
   \<not> embed demo_more \<and>
   update_cache (state_of (update_cache demo_more)) = update_cache demo_more"
proof -
  have a: "map_of (cache demo_more) (Idx 0) =
     Some \<lparr>frag_id = Some ''_anim_img7_0'', visible = True, content = Html ''<p>0</p>''\<rparr>"
    by code_simp
  have b: "map fst (cache (state_of (update_cache demo_more))) = [Idx 0, Idx 1, Idx 2]"
    by code_simp
  have c: "\<not> embed demo_more"
    by code_simp
  from a have d: "map_of (cache (state_of (update_cache demo_more))) (Idx 0) =
     Some \<lparr>frag_id = Some ''_anim_img7_0'', visible = True, content = Html ''<p>0</p>''\<rparr>"
    using update_cache_keeps_entries [of demo_more] by blast
  from c have e: "update_cache (state_of (update_cache demo_more)) = update_cache demo_more"
    using update_cache_keeps_entries [of demo_more] by blast
  from a b c d e show ?thesis by blast
qed

text \<open>
  Claim C10. When the key that \<open>set_frame\<close> builds is not in the key map, \<open>set_frame\<close>
  still stores the value at its index and sets \<open>current_frame\<close> to undefined; in cached
  mode, with no cache entry under that name, nothing else changes and the entries shown
  stay the same.
\<close>

theorem set_frame_unknown_key:
  assumes "build_key (slider_ids w) (array_set (current_vals w) dim_idx dim_val) = Inr key"
    and "map_of (keyMap w) key = None"
  shows "current_vals (state_of (set_frame w dim_val dim_idx)) =
           array_set (current_vals w) dim_idx dim_val \<and>
         array_get (current_vals (state_of (set_frame w dim_val dim_idx))) dim_idx = dim_val \<and>
         current_frame (state_of (set_frame w dim_val dim_idx)) = Undefined \<and>
         (cached w \<and> \<not> obj_has (cache w) Undefined \<longrightarrow>
            set_frame w dim_val dim_idx =
              Returned (w\<lparr>current_vals := array_set (current_vals w) dim_idx dim_val,
                          current_frame := Undefined\<rparr>) \<and>
            shown (state_of (set_frame w dim_val dim_idx)) = shown w)"
proof -
  let ?w2 = "w\<lparr>current_vals := array_set (current_vals w) dim_idx dim_val, current_frame := Undefined\<rparr>"
  have l: "lookup_key (keyMap w) key = Undefined"
    using assms(2) by (simp add: lookup_key_def)
  have r: "set_frame w dim_val dim_idx =
      Returned (if cached w then update ?w2 Undefined else dynamic_update ?w2 Undefined)"
    using assms(1) l by (simp add: set_frame_def Let_def)
  have f: "current_vals (state_of (set_frame w dim_val dim_idx)) = array_set (current_vals w) dim_idx dim_val"
    "current_frame (state_of (set_frame w dim_val dim_idx)) = Undefined"
    by (simp_all add: r update_fields dynamic_update_def)
  have c: "cached w \<and> \<not> obj_has (cache w) Undefined \<longrightarrow>
      set_frame w dim_val dim_idx = Returned ?w2 \<and> shown (state_of (set_frame w dim_val dim_idx)) = shown w"
    by (simp add: r update_def shown_def)
  have g: "array_get (current_vals (state_of (set_frame w dim_val dim_idx))) dim_idx = dim_val"
    by (simp only: f array_get_set)
  from f g c show ?thesis
    by blast
qed

theorem set_frame_unknown_key_witness:
  "build_key (slider_ids demo_cached) (array_set (current_vals demo_cached) 0 (JNum (Fin 7 0))) =
     Inr ''('7.0',)'' \<and>
   map_of (keyMap demo_cached) ''('7.0',)'' = None \<and>
   cached demo_cached \<and> \<not> obj_has (cache demo_cached) Undefined \<and>
   set_frame demo_cached (JNum (Fin 7 0)) 0 =
     Returned (demo_cached\<lparr>current_vals := [JNum (Fin 7 0)], current_frame := Undefined\<rparr>) \<and>
   shown (state_of (set_frame demo_cached (JNum (Fin 7 0)) 0)) = [Idx 0]"
proof -
  have a: "build_key (slider_ids demo_cached) (array_set (current_vals demo_cached) 0 (JNum (Fin 7 0))) =
     Inr ''('7.0',)''"
    by code_simp
  have b: "map_of (keyMap demo_cached) ''('7.0',)'' = None"
    by code_simp
  have c: "cached demo_cached" "\<not> obj_has (cache demo_cached) Undefined"
    by code_simp+
  have d: "array_set (current_vals demo_cached) 0 (JNum (Fin 7 0)) = [JNum (Fin 7 0)]"
    "shown demo_cached = [Idx 0]"
    by code_simp+
  note t = set_frame_unknown_key [OF a b]
  from t c have e: "set_frame demo_cached (JNum (Fin 7 0)) 0 =
     Returned (demo_cached\<lparr>current_vals := array_set (current_vals demo_cached) 0 (JNum (Fin 7 0)),
                            current_frame := Undefined\<rparr>)"
    by blast
  from t c have f: "shown (state_of (set_frame demo_cached (JNum (Fin 7 0)) 0)) = shown demo_cached"
    by blast
  note e' = e [unfolded d(1)] and f' = f [unfolded d(2)]
  from a b c e' f' show ?thesis by blast
qed

end
